theory Spec2Isabelle
  imports Main "HOL-Library.AList" "HOL-Library.Char_ord" "HOL-Library.List_Lexorder"
    "HOL-Library.Multiset" "HOL-Library.Sublist"
begin

section \<open>Data model of gflags/flagvalues.py\<close>

text \<open>
  Flag objects are created outside \<^verbatim>\<open>flagvalues.py\<close> and are held by reference: the
  registry dictionaries store references, and two keys may refer to one object. A flag
  reference is a natural number, and the objects live in a store that maps each
  reference to the current fields of its object. Comparison of flag objects
  (\<^verbatim>\<open>==\<close>, \<^verbatim>\<open>in\<close>, \<^verbatim>\<open>list.remove\<close>) is comparison of references.
\<close>

datatype pyvalue = PyNone | PyBool bool | PyInt int | PyStr string

datatype validator = Validator (insertion_index: int)

record flag =
  name :: string
  short_name :: "string option"
  boolean :: bool
  allow_override :: bool
  using_default_value :: bool
  present :: nat
  flag_value :: pyvalue
  flag_default :: pyvalue
  validators :: "validator list"

type_synonym flag_ref = nat
type_synonym store = "flag_ref \<Rightarrow> flag"

datatype error =
    IllegalFlagValue string
  | FlagsError string
  | DuplicateFlagError string
  | UnrecognizedFlagError string string "string list"
  | AttributeError string
  | UnparsedFlagAccessError string
  | CantOpenFlagFileError string
  | UnboundLocalError string

text \<open>
  The fields that \<^verbatim>\<open>FlagValues.__init__\<close> puts into \<^verbatim>\<open>self.__dict__\<close>. A dictionary is
  an association list with one entry per key (\<^const>\<open>AList.update\<close> overwrites in place,
  \<^const>\<open>AList.delete\<close> removes), so that the methods that iterate over a dictionary
  have an order to follow.
\<close>

record FlagValues =
  flags :: "(string \<times> flag_ref) list"
  hiddenflags :: "string set"
  flags_by_module :: "(string \<times> flag_ref list) list"
  flags_by_module_id :: "(int \<times> flag_ref list) list"
  key_flags_by_module :: "(string \<times> flag_ref list) list"
  flags_parsed :: bool
  use_gnu_getopt :: bool

definition init_FlagValues :: FlagValues where
  "init_FlagValues =
     \<lparr>flags = [], hiddenflags = {}, flags_by_module = [], flags_by_module_id = [],
      key_flags_by_module = [], flags_parsed = False, use_gnu_getopt = False\<rparr>"

definition FlagDict :: "FlagValues \<Rightarrow> string \<Rightarrow> flag_ref option" where
  "FlagDict fv = map_of (flags fv)"

section \<open>Registration: \<^verbatim>\<open>__setitem__\<close>\<close>

definition flag_matches :: "store \<Rightarrow> string \<Rightarrow> flag_ref \<Rightarrow> bool" where
  "flag_matches h flagname f \<longleftrightarrow> name (h f) = flagname \<or> short_name (h f) = Some flagname"

definition FindModuleDefiningFlag :: "store \<Rightarrow> FlagValues \<Rightarrow> string \<Rightarrow> string option" where
  "FindModuleDefiningFlag h fv flagname =
     map_option fst (find (\<lambda>(m, fs). list_ex (flag_matches h flagname) fs) (flags_by_module fv))"

definition FindModuleIdDefiningFlag :: "store \<Rightarrow> FlagValues \<Rightarrow> string \<Rightarrow> int option" where
  "FindModuleIdDefiningFlag h fv flagname =
     map_option fst (find (\<lambda>(m, fs). list_ex (flag_matches h flagname) fs) (flags_by_module_id fv))"

text \<open>
  The two collision tests of \<^verbatim>\<open>__setitem__\<close> (lines 313 and 324): the key is taken and
  neither the incoming flag nor the flag at the key allows an override.
\<close>

definition collides :: "store \<Rightarrow> (string \<times> flag_ref) list \<Rightarrow> string \<Rightarrow> flag_ref \<Rightarrow> bool" where
  "collides h fl k f =
     (case map_of fl k of
        None \<Rightarrow> False
      | Some old \<Rightarrow> \<not> allow_override (h f) \<and> \<not> allow_override (h old))"

text \<open>Lines 328 to 331: the replacement policy for the key \<^verbatim>\<open>name\<close>.\<close>

definition bind_name :: "store \<Rightarrow> (string \<times> flag_ref) list \<Rightarrow> string \<Rightarrow> flag_ref \<Rightarrow> (string \<times> flag_ref) list" where
  "bind_name h fl k f =
     (case map_of fl k of
        None \<Rightarrow> AList.update k f fl
      | Some old \<Rightarrow>
          if using_default_value (h old) \<or> \<not> using_default_value (h f)
          then AList.update k f fl else fl)"

text \<open>
  \<^verbatim>\<open>__setitem__(self, name, flag)\<close>. The caller is the pair (module id, module name) that
  \<^verbatim>\<open>_helpers.GetCallingModuleObjectAndName()\<close> returns. The argument is a flag reference and
  the key a string, so the first two type tests of the source cannot fail.
\<close>

definition setitem :: "int \<times> string \<Rightarrow> store \<Rightarrow> FlagValues \<Rightarrow> string \<Rightarrow> flag_ref \<Rightarrow> error + FlagValues" where
  "setitem caller h fv k f =
     (let fl = flags fv in
      if k = [] then Inl (FlagsError ''Flag name cannot be empty'')
      else if collides h fl k f then
        (if FindModuleDefiningFlag h fv k = Some (snd caller)
            \<and> Some (fst caller) \<noteq> FindModuleIdDefiningFlag h fv k
         then Inr fv
         else Inl (DuplicateFlagError k))
      else
        (case short_name (h f) of
           None \<Rightarrow> Inr (fv\<lparr>flags := bind_name h fl k f\<rparr>)
         | Some s \<Rightarrow>
             if collides h fl s f then Inl (DuplicateFlagError s)
             else Inr (fv\<lparr>flags := bind_name h (AList.update s f fl) k f\<rparr>)))"

text \<open>The flag passes both collision checks of \<^verbatim>\<open>__setitem__\<close>.\<close>

definition passes_collision_checks :: "store \<Rightarrow> FlagValues \<Rightarrow> string \<Rightarrow> flag_ref \<Rightarrow> bool" where
  "passes_collision_checks h fv k f \<longleftrightarrow>
     \<not> collides h (flags fv) k f \<and>
     (case short_name (h f) of None \<Rightarrow> True | Some s \<Rightarrow> \<not> collides h (flags fv) s f)"

section \<open>External collaborators\<close>

datatype verify_result = VerifyOk | VerifyError string | VerifyAttributeError string

text \<open>
  What \<^verbatim>\<open>flagvalues.py\<close> calls and does not define, taken as parameters:
  \<^item> \<open>parser_Parse\<close>: the value conversion of the flag's type, which returns the
    converted value or the message of the failure;
  \<^item> \<open>Verify\<close>: \<^verbatim>\<open>validator.Verify(flag_values)\<close>; \<open>VerifyError\<close> carries the text that
    \<^verbatim>\<open>_AssertValidators\<close> puts into its \<^verbatim>\<open>IllegalFlagValue\<close>;
  \<^item> \<open>GetFlagSuggestions\<close>, \<open>expanduser\<close>: the helpers of these names;
  \<^item> \<open>files\<close>: the file system, a file name to the contents of the file, or to the
    text of the \<^verbatim>\<open>IOError\<close> when the file cannot be opened;
  \<^item> \<open>allow_unparsed\<close>: the environment variable
    \<^verbatim>\<open>GFLAGS_ALLOW_UNPARSED_FLAG_ACCESS\<close>, when set.
\<close>

record externals =
  parser_Parse :: "flag \<Rightarrow> pyvalue \<Rightarrow> string + pyvalue"
  Verify :: "validator \<Rightarrow> store \<Rightarrow> FlagValues \<Rightarrow> verify_result"
  GetFlagSuggestions :: "string \<Rightarrow> string list \<Rightarrow> string list"
  expanduser :: "string \<Rightarrow> string"
  files :: "string \<Rightarrow> string + string"
  allow_unparsed :: "string option"

section \<open>Validators: \<^verbatim>\<open>_AssertValidators\<close>, \<^verbatim>\<open>_AssertAllValidators\<close>\<close>

fun verify_each :: "externals \<Rightarrow> store \<Rightarrow> FlagValues \<Rightarrow> validator list \<Rightarrow> error option" where
  "verify_each ext h fv [] = None"
| "verify_each ext h fv (v # vs) =
     (case Verify ext v h fv of
        VerifyOk \<Rightarrow> verify_each ext h fv vs
      | VerifyError msg \<Rightarrow> Some (IllegalFlagValue msg)
      | VerifyAttributeError a \<Rightarrow> Some (AttributeError a))"

definition AssertValidators :: "externals \<Rightarrow> store \<Rightarrow> FlagValues \<Rightarrow> validator list \<Rightarrow> error option" where
  "AssertValidators ext h fv vs = verify_each ext h fv (sort_key insertion_index vs)"

definition AssertAllValidators :: "externals \<Rightarrow> store \<Rightarrow> FlagValues \<Rightarrow> error option" where
  "AssertAllValidators ext h fv =
     AssertValidators ext h fv (remdups (concat (map (\<lambda>(k, f). validators (h f)) (flags fv))))"

section \<open>Attribute access: \<^verbatim>\<open>__getattr__\<close>, \<^verbatim>\<open>__setattr__\<close>\<close>

definition unparsed_access_allowed :: "externals \<Rightarrow> bool" where
  "unparsed_access_allowed ext \<longleftrightarrow>
     (case allow_unparsed ext of None \<Rightarrow> ''1'' | Some s \<Rightarrow> s) = ''1''"

text \<open>
  \<^verbatim>\<open>__getattr__(self, name)\<close>. The warning, the stack trace and the log entry of the
  branch that is taken before the flags were parsed are written to the process's
  diagnostics and change neither the registry nor the result.
\<close>

definition getattr :: "externals \<Rightarrow> store \<Rightarrow> FlagValues \<Rightarrow> string \<Rightarrow> error + pyvalue" where
  "getattr ext h fv k =
     (case map_of (flags fv) k of
        None \<Rightarrow> Inl (AttributeError k)
      | Some f \<Rightarrow>
          if k \<in> hiddenflags fv then Inl (AttributeError k)
          else if flags_parsed fv \<or> present (h f) \<noteq> 0 then Inr (flag_value (h f))
          else if unparsed_access_allowed ext then Inr (flag_value (h f))
          else Inl (UnparsedFlagAccessError
                      (''Trying to access flag '' @ k @ '' before flags were parsed.'')))"

datatype setattr_error = KeyError string | Raised error

text \<open>
  \<^verbatim>\<open>__setattr__(self, name, value)\<close> assigns the value before it asserts the flag's
  validators, so the store comes back also when a validator fails.
\<close>

definition setattr :: "externals \<Rightarrow> store \<Rightarrow> FlagValues \<Rightarrow> string \<Rightarrow> pyvalue \<Rightarrow> store \<times> (setattr_error + pyvalue)" where
  "setattr ext h fv k v =
     (if k \<in> hiddenflags fv then (h, Inl (Raised (AttributeError k)))
      else case map_of (flags fv) k of
        None \<Rightarrow> (h, Inl (KeyError k))
      | Some f \<Rightarrow>
          (let h' = h(f := (h f)\<lparr>flag_value := v, using_default_value := False\<rparr>) in
           case AssertValidators ext h' fv (validators (h' f)) of
             Some e \<Rightarrow> (h', Inl (Raised e))
           | None \<Rightarrow> (h', Inr v)))"

section \<open>Deregistration: \<^verbatim>\<open>_FlagIsRegistered\<close>, \<^verbatim>\<open>__delattr__\<close>\<close>

definition FlagIsRegistered :: "store \<Rightarrow> (string \<times> flag_ref) list \<Rightarrow> flag_ref \<Rightarrow> bool" where
  "FlagIsRegistered h fl flag_obj \<longleftrightarrow>
     map_of fl (name (h flag_obj)) = Some flag_obj \<or>
     (case short_name (h flag_obj) of
        None \<Rightarrow> False
      | Some s \<Rightarrow> map_of fl s = Some flag_obj)"

text \<open>The inner loop of \<^verbatim>\<open>__RemoveFlagFromDictByModule\<close>: remove while the flag is in the list.\<close>

function remove_while_in :: "flag_ref \<Rightarrow> flag_ref list \<Rightarrow> flag_ref list" where
  "remove_while_in flag_obj flags_in_module =
     (if flag_obj \<in> set flags_in_module
      then remove_while_in flag_obj (remove1 flag_obj flags_in_module)
      else flags_in_module)"
  by pat_completeness auto
termination
proof (relation "measure (\<lambda>(x, xs). length xs)")
  show "wf (measure (\<lambda>(x :: flag_ref, xs :: flag_ref list). length xs))"
    by simp
next
  fix flag_obj :: flag_ref and flags_in_module :: "flag_ref list"
  assume "flag_obj \<in> set flags_in_module"
  then have "0 < length flags_in_module"
    by (rule length_pos_if_in_set)
  with \<open>flag_obj \<in> set flags_in_module\<close>
  show "((flag_obj, remove1 flag_obj flags_in_module), (flag_obj, flags_in_module))
          \<in> measure (\<lambda>(x, xs). length xs)"
    by (simp add: length_remove1)
qed

declare remove_while_in.simps [simp del]

definition RemoveFlagFromDictByModule :: "('m \<times> flag_ref list) list \<Rightarrow> flag_ref \<Rightarrow> ('m \<times> flag_ref list) list" where
  "RemoveFlagFromDictByModule flags_by_module_dict flag_obj =
     map (\<lambda>(m, flags_in_module). (m, remove_while_in flag_obj flags_in_module)) flags_by_module_dict"

definition delattr :: "store \<Rightarrow> FlagValues \<Rightarrow> string \<Rightarrow> error + FlagValues" where
  "delattr h fv flag_name =
     (case map_of (flags fv) flag_name of
        None \<Rightarrow> Inl (AttributeError flag_name)
      | Some flag_obj \<Rightarrow>
          (let fv1 = fv\<lparr>flags := AList.delete flag_name (flags fv)\<rparr> in
           if \<not> FlagIsRegistered h (flags fv1) flag_obj
           then Inr (fv1\<lparr>flags_by_module := RemoveFlagFromDictByModule (flags_by_module fv1) flag_obj,
                         flags_by_module_id := RemoveFlagFromDictByModule (flags_by_module_id fv1) flag_obj,
                         key_flags_by_module := RemoveFlagFromDictByModule (key_flags_by_module fv1) flag_obj\<rparr>)
           else Inr fv1))"

text \<open>What purging a flag from a module index means: no occurrence of it is left.\<close>

definition purged :: "flag_ref \<Rightarrow> ('m \<times> flag_ref list) list \<Rightarrow> ('m \<times> flag_ref list) list" where
  "purged flag_obj idx = map (\<lambda>(m, fs). (m, removeAll flag_obj fs)) idx"

section \<open>Strings\<close>

text \<open>
  The methods of Python's byte strings that the file uses. \<^verbatim>\<open>s.startswith(p)\<close>,
  \<^verbatim>\<open>s.lstrip('-')\<close>, \<^verbatim>\<open>s.strip()\<close> and \<^verbatim>\<open>s.isspace()\<close> with the six ASCII white space
  characters, \<^verbatim>\<open>s.split(sep)\<close> and \<^verbatim>\<open>s.split(sep, 1)\<close> for a separator of one character.
\<close>

definition startswith :: "string \<Rightarrow> string \<Rightarrow> bool" where
  "startswith s p \<longleftrightarrow> take (length p) s = p"

definition lstrip_dash :: "string \<Rightarrow> string" where
  "lstrip_dash s = dropWhile (\<lambda>c. c = CHR ''-'') s"

definition whitespace :: "char \<Rightarrow> bool" where
  "whitespace c \<longleftrightarrow> c \<in> {CHR '' '', CHR 0x09, CHR 0x0A, CHR 0x0B, CHR 0x0C, CHR 0x0D}"

definition strip :: "string \<Rightarrow> string" where
  "strip s = rev (dropWhile whitespace (rev (dropWhile whitespace s)))"

definition isspace :: "string \<Rightarrow> bool" where
  "isspace s \<longleftrightarrow> s \<noteq> [] \<and> list_all whitespace s"

fun split :: "char \<Rightarrow> string \<Rightarrow> string list" where
  "split sep [] = [[]]"
| "split sep (c # cs) =
     (if c = sep then [] # split sep cs
      else (case split sep cs of
              [] \<Rightarrow> [[c]]
            | w # ws \<Rightarrow> (c # w) # ws))"

definition split1 :: "char \<Rightarrow> string \<Rightarrow> string \<times> string" where
  "split1 sep s = (takeWhile (\<lambda>c. c \<noteq> sep) s, drop 1 (dropWhile (\<lambda>c. c \<noteq> sep) s))"

section \<open>\<^verbatim>\<open>ShortestUniquePrefixes\<close>\<close>

text \<open>
  Lines 842 to 847: the names of the dictionary \<^verbatim>\<open>fl\<close>, each boolean flag also under
  its \<^verbatim>\<open>no\<close> name, sorted. The argument is \<^verbatim>\<open>fl.items()\<close>.
\<close>

definition sorted_flags :: "store \<Rightarrow> (string \<times> flag_ref) list \<Rightarrow> string list" where
  "sorted_flags h fl =
     sort (concat (map (\<lambda>(n, f). if boolean (h f) then [n, ''no'' @ n] else [n]) fl))"

text \<open>
  The inner loop (lines 861 to 868) breaks at the first index of \<^verbatim>\<open>curr\<close> where there is
  no next name, the next name has ended, or the two names differ.
\<close>

definition break_index :: "string \<Rightarrow> string option \<Rightarrow> nat option" where
  "break_index cur next_flag =
     find (\<lambda>curr_idx. case next_flag of
                         None \<Rightarrow> True
                       | Some nf \<Rightarrow> curr_idx \<ge> length nf \<or> cur ! curr_idx \<noteq> nf ! curr_idx)
          [0..<length cur]"

text \<open>
  The outer loop (lines 854 to 872) over the names that are left, with the variables
  \<^verbatim>\<open>prev_idx\<close>, \<^verbatim>\<open>curr_idx\<close> and \<^verbatim>\<open>shortest_matches\<close>. \<^verbatim>\<open>curr_idx\<close> is unbound until an
  inner loop has run at least once, and line 872 reads it.
\<close>

fun prefixes_loop :: "nat \<Rightarrow> nat option \<Rightarrow> (string \<times> string) list \<Rightarrow> string list \<Rightarrow> error + (string \<times> string) list" where
  "prefixes_loop prev_idx curr_idx shortest_matches [] = Inr shortest_matches"
| "prefixes_loop prev_idx curr_idx shortest_matches (cur # rest) =
     (let next_flag = (case rest of [] \<Rightarrow> None | nf # _ \<Rightarrow> Some nf) in
      case break_index cur next_flag of
        Some i \<Rightarrow>
          prefixes_loop i (Some i)
            (AList.update cur (take (max prev_idx i + 1) cur) shortest_matches) rest
      | None \<Rightarrow>
          (case (if cur = [] then curr_idx else Some (length cur - 1)) of
             None \<Rightarrow> Inl (UnboundLocalError ''curr_idx'')
           | Some i \<Rightarrow>
               prefixes_loop (i + 1) (Some i) (AList.update cur cur shortest_matches) rest))"

definition ShortestUniquePrefixes :: "store \<Rightarrow> (string \<times> flag_ref) list \<Rightarrow> error + (string \<times> string) list" where
  "ShortestUniquePrefixes h fl = prefixes_loop 0 None [] (sorted_flags h fl)"

text \<open>
  The property, in the words of the specification: the shortest left-substring of a name
  that is a prefix of neither neighbour in the sorted list, found by trying the lengths
  1, 2, ...; the whole name when every left-substring is shared with a neighbour.
\<close>

definition distinguishes :: "string \<Rightarrow> string option \<Rightarrow> bool" where
  "distinguishes q neighbour =
     (case neighbour of None \<Rightarrow> True | Some nb \<Rightarrow> \<not> startswith nb q)"

definition shortest_distinguishing :: "string option \<Rightarrow> string \<Rightarrow> string option \<Rightarrow> string" where
  "shortest_distinguishing prev_flag cur next_flag =
     (case find (\<lambda>q. distinguishes q prev_flag \<and> distinguishes q next_flag)
                (map (\<lambda>n. take n cur) [1..<Suc (length cur)]) of
        Some q \<Rightarrow> q
      | None \<Rightarrow> cur)"

fun spec_prefixes :: "string option \<Rightarrow> string list \<Rightarrow> (string \<times> string) list" where
  "spec_prefixes prev_flag [] = []"
| "spec_prefixes prev_flag (cur # rest) =
     (cur, shortest_distinguishing prev_flag cur (case rest of [] \<Rightarrow> None | nf # _ \<Rightarrow> Some nf))
       # spec_prefixes (Some cur) rest"

definition assign_all :: "(string \<times> string) list \<Rightarrow> (string \<times> string) list \<Rightarrow> (string \<times> string) list" where
  "assign_all writes d = fold (\<lambda>(k, v). AList.update k v) writes d"

fun lcp :: "string \<Rightarrow> string \<Rightarrow> nat" where
  "lcp (x # xs) (y # ys) = (if x = y then Suc (lcp xs ys) else 0)"
| "lcp xs ys = 0"

text \<open>The length of the longest common prefix with a neighbour, 0 where there is none.\<close>

definition lcpo :: "string option \<Rightarrow> string \<Rightarrow> nat" where
  "lcpo nb c = (case nb of None \<Rightarrow> 0 | Some x \<Rightarrow> lcp x c)"

section \<open>Flag files: \<^verbatim>\<open>__IsFlagFileDirective\<close>, \<^verbatim>\<open>ExtractFilename\<close>, \<^verbatim>\<open>__GetFlagFileLines\<close>\<close>

text \<open>\<^verbatim>\<open>file_obj.readlines()\<close>: the lines of the contents, each with its line feed.\<close>

fun readlines :: "string \<Rightarrow> string list" where
  "readlines [] = []"
| "readlines (c # cs) =
     (if c = CHR 0x0A then [c] # readlines cs
      else (case readlines cs of
              [] \<Rightarrow> [[c]]
            | l # ls \<Rightarrow> (c # l) # ls))"

definition IsFlagFileDirective :: "string \<Rightarrow> bool" where
  "IsFlagFileDirective flag_string \<longleftrightarrow>
     startswith flag_string ''--flagfile='' \<or> flag_string = ''--flagfile'' \<or>
     startswith flag_string ''-flagfile='' \<or> flag_string = ''-flagfile''"

definition ExtractFilename :: "externals \<Rightarrow> string \<Rightarrow> error + string" where
  "ExtractFilename ext flagfile_str =
     (if startswith flagfile_str ''--flagfile=''
      then Inr (expanduser ext (strip (drop (length ''--flagfile='') flagfile_str)))
      else if startswith flagfile_str ''-flagfile=''
      then Inr (expanduser ext (strip (drop (length ''-flagfile='') flagfile_str)))
      else Inl (FlagsError (''Hit illegal --flagfile type: '' @ flagfile_str)))"

text \<open>
  \<^verbatim>\<open>__GetFlagFileLines(filename, parsed_file_stack)\<close> calls itself for every nested
  directive. The first argument bounds the depth of these calls: with \<open>n\<close> the function
  may be entered \<open>n\<close> deep, and \<open>None\<close> says that this was not enough. \<open>flag_lines\<close> is
  the loop over the lines of one file (lines 956 to 973) with the list
  \<^verbatim>\<open>flag_line_list\<close>. The stack is the list of the files that are open; the source
  appends the file name on entry and pops it before it returns, and no exception is
  caught in between, so every nested call sees the stack of its caller with the caller's
  file name appended. The warning about a circular dependency goes to standard error.
\<close>

fun GetFlagFileLines :: "nat \<Rightarrow> externals \<Rightarrow> string \<Rightarrow> string list \<Rightarrow> (error + string list) option"
  and flag_lines :: "nat \<Rightarrow> externals \<Rightarrow> string list \<Rightarrow> string list \<Rightarrow> string list \<Rightarrow> (error + string list) option"
where
  "GetFlagFileLines 0 ext filename parsed_file_stack = None"
| "GetFlagFileLines (Suc depth) ext filename parsed_file_stack =
     (if filename \<in> set parsed_file_stack then Some (Inr [])
      else case files ext filename of
             Inl e_msg \<Rightarrow> Some (Inl (CantOpenFlagFileError (''ERROR:: Unable to open flagfile: '' @ e_msg)))
           | Inr contents \<Rightarrow>
               flag_lines depth ext (readlines contents) (parsed_file_stack @ [filename]) [])"
| "flag_lines depth ext [] parsed_file_stack flag_line_list = Some (Inr flag_line_list)"
| "flag_lines depth ext (line # line_list) parsed_file_stack flag_line_list =
     (if isspace line then flag_lines depth ext line_list parsed_file_stack flag_line_list
      else if startswith line ''#'' \<or> startswith line ''//''
      then flag_lines depth ext line_list parsed_file_stack flag_line_list
      else if IsFlagFileDirective line then
        (case ExtractFilename ext line of
           Inl e \<Rightarrow> Some (Inl e)
         | Inr sub_filename \<Rightarrow>
             (case GetFlagFileLines depth ext sub_filename parsed_file_stack of
                None \<Rightarrow> None
              | Some (Inl e) \<Rightarrow> Some (Inl e)
              | Some (Inr included_flags) \<Rightarrow>
                  flag_lines depth ext line_list parsed_file_stack (flag_line_list @ included_flags)))
      else flag_lines depth ext line_list parsed_file_stack (flag_line_list @ [strip line]))"

text \<open>
  One call of \<^verbatim>\<open>__GetFlagFileLines\<close> enters another: the file is not on the stack, it can
  be read, and one of its lines that is neither blank nor a comment is a directive that
  names the other file.
\<close>

inductive nested_call :: "externals \<Rightarrow> string \<times> string list \<Rightarrow> string \<times> string list \<Rightarrow> bool" for ext where
  "filename \<notin> set parsed_file_stack \<Longrightarrow> files ext filename = Inr contents \<Longrightarrow>
   line \<in> set (readlines contents) \<Longrightarrow> IsFlagFileDirective line \<Longrightarrow>
   ExtractFilename ext line = Inr sub_filename \<Longrightarrow>
   nested_call ext (filename, parsed_file_stack) (sub_filename, parsed_file_stack @ [filename])"


section \<open>\<^verbatim>\<open>ReadFlagsFromFiles\<close>\<close>

fun ReadFlagsFromFiles_loop :: "nat \<Rightarrow> externals \<Rightarrow> store \<Rightarrow> FlagValues \<Rightarrow> bool \<Rightarrow> string list \<Rightarrow> string list \<Rightarrow> (error + string list) option" where
  "ReadFlagsFromFiles_loop depth ext h fv force_gnu [] new_argv = Some (Inr new_argv)"
| "ReadFlagsFromFiles_loop depth ext h fv force_gnu (current_arg # rest_of_args) new_argv =
     (if IsFlagFileDirective current_arg then
        (if current_arg = ''--flagfile'' \<or> current_arg = ''-flagfile'' then
           (case rest_of_args of
              [] \<Rightarrow> Some (Inl (IllegalFlagValue ''--flagfile with no argument''))
            | a # rest' \<Rightarrow>
                (case GetFlagFileLines depth ext (expanduser ext a) [] of
                   None \<Rightarrow> None
                 | Some (Inl e) \<Rightarrow> Some (Inl e)
                 | Some (Inr ls) \<Rightarrow>
                     ReadFlagsFromFiles_loop depth ext h fv force_gnu rest' (new_argv @ ls)))
         else
           (case ExtractFilename ext current_arg of
              Inl e \<Rightarrow> Some (Inl e)
            | Inr flag_filename \<Rightarrow>
                (case GetFlagFileLines depth ext flag_filename [] of
                   None \<Rightarrow> None
                 | Some (Inl e) \<Rightarrow> Some (Inl e)
                 | Some (Inr ls) \<Rightarrow>
                     ReadFlagsFromFiles_loop depth ext h fv force_gnu rest_of_args (new_argv @ ls))))
      else if current_arg = ''--'' then Some (Inr (new_argv @ [current_arg] @ rest_of_args))
      else if \<not> startswith current_arg ''-'' then
        (if \<not> force_gnu \<and> \<not> use_gnu_getopt fv
         then Some (Inr (new_argv @ [current_arg] @ rest_of_args))
         else ReadFlagsFromFiles_loop depth ext h fv force_gnu rest_of_args (new_argv @ [current_arg]))
      else
        (case rest_of_args of
           [] \<Rightarrow> ReadFlagsFromFiles_loop depth ext h fv force_gnu rest_of_args (new_argv @ [current_arg])
         | a # rest' \<Rightarrow>
             if CHR ''='' \<notin> set current_arg \<and> \<not> startswith a ''-'' \<and>
                (case map_of (flags fv) (lstrip_dash current_arg) of
                   None \<Rightarrow> False
                 | Some f \<Rightarrow> \<not> boolean (h f))
             then ReadFlagsFromFiles_loop depth ext h fv force_gnu rest' (new_argv @ [current_arg, a])
             else ReadFlagsFromFiles_loop depth ext h fv force_gnu rest_of_args (new_argv @ [current_arg])))"

definition ReadFlagsFromFiles :: "nat \<Rightarrow> externals \<Rightarrow> store \<Rightarrow> FlagValues \<Rightarrow> string list \<Rightarrow> bool \<Rightarrow> (error + string list) option" where
  "ReadFlagsFromFiles depth ext h fv argv force_gnu =
     ReadFlagsFromFiles_loop depth ext h fv force_gnu argv []"

section \<open>The argument scanner: \<^verbatim>\<open>_ParseArgs\<close>\<close>

text \<open>
  Modelled from the spec: \<^verbatim>\<open>Flag.Parse(argument)\<close>, a method of the flag module, which is
  not in this file. It routes the raw value to the conversion of the flag's type and
  stores the result as the flag's value, marking the flag as present; a value that
  fails type parsing raises \<^verbatim>\<open>IllegalFlagValue\<close>, and the flag is unchanged.
\<close>

definition flag_Parse :: "externals \<Rightarrow> flag \<Rightarrow> pyvalue \<Rightarrow> string + flag" where
  "flag_Parse ext f argument =
     (case parser_Parse ext f argument of
        Inl msg \<Rightarrow> Inl msg
      | Inr v \<Rightarrow> Inr (f\<lparr>flag_value := v, present := Suc (present f)\<rparr>))"

text \<open>
  The state of one scan: the flag objects, the calls of \<^verbatim>\<open>Flag.Parse\<close> made so far
  (flag and argument, in order), and the three local variables of \<^verbatim>\<open>_ParseArgs\<close>.
\<close>

record scan =
  objects :: store
  parse_calls :: "(flag_ref \<times> pyvalue) list"
  unknown_flags :: "(string \<times> string) list"
  unparsed_args :: "string list"
  undefok :: "string set"

text \<open>
  What one round of the \<^verbatim>\<open>while\<close> loop does: go on with the arguments that are left,
  leave the loop (\<^verbatim>\<open>break\<close>; line 659 has then added the arguments that were left), or
  raise.
\<close>

datatype step = Continue scan "string list" | Stop scan | Raise scan error

text \<open>Lines 604 to 607: the name and the value of a flag token.\<close>

definition split_arg :: "string \<Rightarrow> string \<times> string option" where
  "split_arg arg =
     (if CHR ''='' \<in> set arg
      then (case split1 CHR ''='' (lstrip_dash arg) of (n, v) \<Rightarrow> (n, Some v))
      else (lstrip_dash arg, None))"

text \<open>Lines 595 to 599 and 611 to 615: an argument that is not a flag.\<close>

definition positional :: "FlagValues \<Rightarrow> scan \<Rightarrow> string \<Rightarrow> string list \<Rightarrow> step" where
  "positional fv s arg rest =
     (if use_gnu_getopt fv
      then Continue (s\<lparr>unparsed_args := unparsed_args s @ [arg]\<rparr>) rest
      else Stop (s\<lparr>unparsed_args := unparsed_args s @ [arg] @ rest\<rparr>))"

text \<open>Lines 626 and 627.\<close>

definition add_undefok :: "scan \<Rightarrow> string \<Rightarrow> scan" where
  "add_undefok s v =
     s\<lparr>undefok := undefok s \<union> set (map strip (split CHR '','' v))
                            \<union> set (map (\<lambda>x. ''no'' @ strip x) (split CHR '','' v))\<rparr>"

text \<open>Lines 656 and 657.\<close>

definition parse_flag :: "externals \<Rightarrow> scan \<Rightarrow> flag_ref \<Rightarrow> pyvalue \<Rightarrow> string list \<Rightarrow> step" where
  "parse_flag ext s f v rest =
     (case flag_Parse ext (objects s f) v of
        Inl msg \<Rightarrow> Raise (s\<lparr>parse_calls := parse_calls s @ [(f, v)]\<rparr>) (IllegalFlagValue msg)
      | Inr f' \<Rightarrow>
          Continue (s\<lparr>objects := (objects s)(f := f'\<lparr>using_default_value := False\<rparr>),
                     parse_calls := parse_calls s @ [(f, v)]\<rparr>) rest)"

definition record_unknown :: "scan \<Rightarrow> string \<Rightarrow> string \<Rightarrow> scan" where
  "record_unknown s n arg = s\<lparr>unknown_flags := unknown_flags s @ [(n, arg)]\<rparr>"

text \<open>Lines 590 to 657, for the argument \<^verbatim>\<open>arg = args[i]\<close> and the rest \<^verbatim>\<open>args[i+1:]\<close>.\<close>

definition scan_token :: "externals \<Rightarrow> FlagValues \<Rightarrow> scan \<Rightarrow> string \<Rightarrow> string list \<Rightarrow> step" where
  "scan_token ext fv s arg rest =
     (if \<not> startswith arg ''-'' then positional fv s arg rest
      else if arg = ''--'' then Stop (s\<lparr>unparsed_args := unparsed_args s @ rest\<rparr>)
      else case split_arg arg of (n, val) \<Rightarrow>
        if n = [] then positional fv s arg rest
        else if n = ''undefok'' then
          (case val of
             Some v \<Rightarrow> Continue (add_undefok s v) rest
           | None \<Rightarrow>
               (case rest of
                  [] \<Rightarrow> Raise s (FlagsError (''Missing value for flag '' @ arg))
                | v # rest' \<Rightarrow> Continue (add_undefok s v) rest'))
        else
          (case map_of (flags fv) n of
             Some f \<Rightarrow>
               (if boolean (objects s f) \<and> val = None then parse_flag ext s f (PyBool True) rest
                else case val of
                       Some v \<Rightarrow> parse_flag ext s f (PyStr v) rest
                     | None \<Rightarrow>
                         (case rest of
                            [] \<Rightarrow> Raise s (FlagsError (''Missing value for flag '' @ arg))
                          | v # rest' \<Rightarrow> parse_flag ext s f (PyStr v) rest'))
           | None \<Rightarrow>
               (case (if startswith n ''no'' then map_of (flags fv) (drop 2 n) else None) of
                  Some noflag \<Rightarrow>
                    if boolean (objects s noflag) then parse_flag ext s noflag (PyBool False) rest
                    else Continue (record_unknown s n arg) rest
                | None \<Rightarrow> Continue (record_unknown s n arg) rest)))"

lemma scan_token_shorter:
  "scan_token ext fv s arg rest = Continue s' rest' \<Longrightarrow> length rest' \<le> length rest"
  by (auto simp: scan_token_def positional_def parse_flag_def
      split: if_splits prod.splits option.splits list.splits sum.splits)

function ParseArgs_loop :: "externals \<Rightarrow> FlagValues \<Rightarrow> scan \<Rightarrow> string list \<Rightarrow> scan \<times> error option" where
  "ParseArgs_loop ext fv s [] = (s, None)"
| "ParseArgs_loop ext fv s (arg # rest) =
     (case scan_token ext fv s arg rest of
        Continue s' rest' \<Rightarrow> ParseArgs_loop ext fv s' rest'
      | Stop s' \<Rightarrow> (s', None)
      | Raise s' e \<Rightarrow> (s', Some e))"
  by pat_completeness auto
termination
proof (relation "measure (\<lambda>(ext, fv, s, args). length args)")
  show "wf (measure (\<lambda>(ext :: externals, fv :: FlagValues, s :: scan, args :: string list). length args))"
    by simp
next
  fix ext :: externals and fv :: FlagValues and s s' :: scan and arg :: string
    and rest rest' :: "string list"
  assume "scan_token ext fv s arg rest = Continue s' rest'"
  then have "length rest' \<le> length rest"
    by (rule scan_token_shorter)
  then show "((ext, fv, s', rest'), (ext, fv, s, arg # rest))
      \<in> measure (\<lambda>(ext, fv, s, args). length args)"
    by simp
qed

definition init_scan :: "store \<Rightarrow> scan" where
  "init_scan h = \<lparr>objects = h, parse_calls = [], unknown_flags = [], unparsed_args = [], undefok = {}\<rparr>"

definition ParseArgs :: "externals \<Rightarrow> store \<Rightarrow> FlagValues \<Rightarrow> string list \<Rightarrow> scan \<times> error option" where
  "ParseArgs ext h fv args = ParseArgs_loop ext fv (init_scan h) args"

text \<open>The state of the scan after one round of the loop.\<close>

fun scan_of :: "step \<Rightarrow> scan" where
  "scan_of (Continue s rest) = s"
| "scan_of (Stop s) = s"
| "scan_of (Raise s e) = s"

section \<open>The parse call: \<^verbatim>\<open>__call__\<close>\<close>

definition MarkAsParsed :: "FlagValues \<Rightarrow> FlagValues" where
  "MarkAsParsed fv = fv\<lparr>flags_parsed := True\<rparr>"

definition RegisteredFlags :: "FlagValues \<Rightarrow> string list" where
  "RegisteredFlags fv = map fst (flags fv)"

text \<open>Lines 565 to 567, with the value to return.\<close>

definition finish_call :: "externals \<Rightarrow> store \<Rightarrow> FlagValues \<Rightarrow> string list \<Rightarrow> store \<times> FlagValues \<times> (error + string list)" where
  "finish_call ext h fv result =
     (case AssertAllValidators ext h (MarkAsParsed fv) of
        Some e \<Rightarrow> (h, MarkAsParsed fv, Inl e)
      | None \<Rightarrow> (h, MarkAsParsed fv, Inr result))"

text \<open>
  Lines 552 to 567: the scan of the expanded arguments, and the loop over the unknown
  flags, which raises for the first one whose name is not in \<^verbatim>\<open>undefok\<close>.
\<close>

definition scan_args :: "externals \<Rightarrow> store \<Rightarrow> FlagValues \<Rightarrow> string \<Rightarrow> string list \<Rightarrow> store \<times> FlagValues \<times> (error + string list)" where
  "scan_args ext h fv program_name args =
     (case ParseArgs ext h fv args of
        (s, Some e) \<Rightarrow> (objects s, fv, Inl e)
      | (s, None) \<Rightarrow>
          (case find (\<lambda>(n, v). n \<notin> undefok s) (unknown_flags s) of
             Some (n, v) \<Rightarrow>
               (objects s, fv,
                Inl (UnrecognizedFlagError n v (GetFlagSuggestions ext n (RegisteredFlags fv))))
           | None \<Rightarrow> finish_call ext (objects s) fv (program_name # unparsed_args s)))"

text \<open>
  \<^verbatim>\<open>__call__(self, argv)\<close>. The result is the store and the registry that the call
  leaves behind, with the value it returns or the error it raises; \<open>None\<close> when the
  expansion of the flag files did not end within the given depth.
\<close>

definition call :: "nat \<Rightarrow> externals \<Rightarrow> store \<Rightarrow> FlagValues \<Rightarrow> string list \<Rightarrow> (store \<times> FlagValues \<times> (error + string list)) option" where
  "call depth ext h fv argv =
     (case argv of
        [] \<Rightarrow> Some (finish_call ext h fv [])
      | program_name # args \<Rightarrow>
          (case ReadFlagsFromFiles depth ext h fv args False of
             None \<Rightarrow> None
           | Some (Inl e) \<Rightarrow> Some (h, fv, Inl e)
           | Some (Inr args') \<Rightarrow> Some (scan_args ext h fv program_name args')))"

text \<open>
  The store after the given calls of \<^verbatim>\<open>Flag.Parse\<close>, each followed by line 657; a call
  that raises leaves the store as it is.
\<close>

fun replay :: "externals \<Rightarrow> (flag_ref \<times> pyvalue) list \<Rightarrow> store \<Rightarrow> store" where
  "replay ext [] h = h"
| "replay ext ((f, v) # cs) h =
     (case flag_Parse ext (h f) v of
        Inl msg \<Rightarrow> replay ext cs h
      | Inr f' \<Rightarrow> replay ext cs (h(f := f'\<lparr>using_default_value := False\<rparr>)))"

definition is_unrecognized :: "error \<Rightarrow> bool" where
  "is_unrecognized e = (case e of UnrecognizedFlagError n v sg \<Rightarrow> True | _ \<Rightarrow> False)"

text \<open>
  Modelled from the spec: the tri-state of a flag object (value, default value,
  \<^verbatim>\<open>using_default_value\<close>), which the flag module keeps and which is not in this file. A
  flag that is still using its default value holds that default as its value.
\<close>

definition default_intact :: "flag \<Rightarrow> bool" where
  "default_intact f \<longleftrightarrow> (using_default_value f \<longrightarrow> flag_value f = flag_default f)"

text \<open>The files that can be opened.\<close>

definition readable_files :: "externals \<Rightarrow> string set" where
  "readable_files ext = {p. \<exists>contents. files ext p = Inr contents}"

section \<open>Example objects\<close>

definition plain_flag :: "string \<Rightarrow> flag" where
  "plain_flag n =
     \<lparr>name = n, short_name = None, boolean = False, allow_override = False,
      using_default_value = True, present = 0, flag_value = PyInt 0, flag_default = PyInt 0,
      validators = []\<rparr>"

definition no_externals :: externals where
  "no_externals =
     \<lparr>parser_Parse = (\<lambda>f v. Inr v),
      Verify = (\<lambda>v h fv. VerifyOk),
      GetFlagSuggestions = (\<lambda>n ns. []),
      expanduser = (\<lambda>p. p),
      files = (\<lambda>p. Inl ''No such file or directory''),
      allow_unparsed = None\<rparr>"

text \<open>
  Two flag objects for the key \<open>x\<close>: object 0 was given the value 5, object 1 is a later
  definition that allows overriding, is still at its default and has the short name \<open>x\<close>.
\<close>

definition alias_store :: store where
  "alias_store =
     (\<lambda>r. (plain_flag ''x'')\<lparr>using_default_value := False, present := 1, flag_value := PyInt 5\<rparr>)
     (Suc 0 := (plain_flag ''x'')\<lparr>short_name := Some ''x'', allow_override := True\<rparr>)"

text \<open>
  Two flag objects for the key \<open>verbose\<close>: object 0 was given the value 5, object 1 is a
  later definition with the short name \<open>v\<close> that allows overriding and is at its default.
\<close>

definition diverge_store :: store where
  "diverge_store =
     (\<lambda>r. (plain_flag ''verbose'')\<lparr>using_default_value := False, present := 1, flag_value := PyInt 5\<rparr>)
     (Suc 0 := (plain_flag ''verbose'')\<lparr>short_name := Some ''v'', allow_override := True\<rparr>)"

definition main_caller :: "int \<times> string" where
  "main_caller = (1, ''__main__'')"

definition x_registry :: FlagValues where
  "x_registry = init_FlagValues\<lparr>flags := [(''x'', 0)]\<rparr>"

definition verbose_registry :: FlagValues where
  "verbose_registry = init_FlagValues\<lparr>flags := [(''verbose'', 0)]\<rparr>"

text \<open>Object 1 of \<^const>\<open>diverge_store\<close> under both of its names, defined by the main module.\<close>

definition short_registry :: FlagValues where
  "short_registry =
     init_FlagValues\<lparr>flags := [(''verbose'', Suc 0), (''v'', Suc 0)],
                     flags_by_module := [(''__main__'', [Suc 0])],
                     flags_by_module_id := [(1, [Suc 0])],
                     key_flags_by_module := [(''__main__'', [Suc 0])]\<rparr>"

definition x_store :: store where
  "x_store = (\<lambda>r. plain_flag ''x'')"


text \<open>Two flag files that include each other, and one that includes itself.\<close>

definition cyclic_files :: "string \<Rightarrow> string + string" where
  "cyclic_files =
     (\<lambda>p. Inl ''No such file or directory'')
       (''a.cfg'' := Inr (''--x=1'' @ [CHR 0x0A] @ ''--flagfile=b.cfg'' @ [CHR 0x0A] @ ''--z=3''),
        ''b.cfg'' := Inr (''--flagfile=a.cfg'' @ [CHR 0x0A] @ ''--y=2'' @ [CHR 0x0A]),
        ''self.cfg'' := Inr (''--flagfile=self.cfg'' @ [CHR 0x0A] @ ''--w=4''))"

text \<open>A flag named \<open>x\<close> whose short name is the empty string.\<close>

definition empty_short_store :: store where
  "empty_short_store = (\<lambda>r. (plain_flag ''x'')\<lparr>short_name := Some []\<rparr>)"

text \<open>A registry with the boolean flag \<open>bool_flag\<close>, which is false by default.\<close>

definition bool_store :: store where
  "bool_store =
     (\<lambda>r. (plain_flag ''bool_flag'')\<lparr>boolean := True, flag_value := PyBool False,
                                      flag_default := PyBool False\<rparr>)"

definition bool_registry :: FlagValues where
  "bool_registry = init_FlagValues\<lparr>flags := [(''bool_flag'', 0)]\<rparr>"

section \<open>Properties of registration\<close>

lemma setitem_passes:
  assumes "k \<noteq> []" "passes_collision_checks h fv k f"
  shows "setitem caller h fv k f =
     Inr (fv\<lparr>flags := bind_name h
            (case short_name (h f) of None \<Rightarrow> flags fv | Some s \<Rightarrow> AList.update s f (flags fv)) k f\<rparr>)"
  using assms
  by (auto simp: setitem_def passes_collision_checks_def Let_def split: option.splits)

lemma map_of_bind_name:
  "map_of (bind_name h fl k f) k =
     (case map_of fl k of
        None \<Rightarrow> Some f
      | Some old \<Rightarrow> if using_default_value (h old) \<or> \<not> using_default_value (h f)
                    then Some f else Some old)"
  by (simp add: bind_name_def update_conv' split: option.splits)

lemma map_of_bind_name_other:
  "k' \<noteq> k \<Longrightarrow> map_of (bind_name h fl k f) k' = map_of fl k'"
  by (simp add: bind_name_def update_conv' split: option.splits)

text \<open>
  C1, as the code has it. For a flag \<open>f\<close> registered under the non-empty key \<open>k\<close> that
  passes the collision checks and whose short name is not \<open>k\<close> itself, registration
  succeeds, and afterwards \<open>k\<close> is bound to \<open>f\<close> exactly when \<open>k\<close> was not a key, or the
  flag that was at \<open>k\<close> was at its default value, or \<open>f\<close> is not at its default value;
  when the flag that was at \<open>k\<close> has a non-default value and \<open>f\<close> is at its default, the
  entry at \<open>k\<close> is the one it was.
\<close>

theorem setitem_replacement_policy:
  assumes "k \<noteq> []"
    and "passes_collision_checks h fv k f"
    and "short_name (h f) \<noteq> Some k"
  shows "\<exists>fv'. setitem caller h fv k f = Inr fv' \<and>
     (FlagDict fv' k = Some f \<longleftrightarrow>
        (case FlagDict fv k of
           None \<Rightarrow> True
         | Some old \<Rightarrow> using_default_value (h old) \<or> \<not> using_default_value (h f))) \<and>
     (case FlagDict fv k of
        None \<Rightarrow> True
      | Some old \<Rightarrow>
          \<not> using_default_value (h old) \<and> using_default_value (h f) \<longrightarrow>
          FlagDict fv' k = FlagDict fv k)"
proof -
  define fl where
    "fl = (case short_name (h f) of None \<Rightarrow> flags fv | Some s \<Rightarrow> AList.update s f (flags fv))"
  define fv' where "fv' = fv\<lparr>flags := bind_name h fl k f\<rparr>"
  have same: "map_of fl k = map_of (flags fv) k"
    using assms(3) by (auto simp: fl_def update_conv' split: option.splits)
  have res: "setitem caller h fv k f = Inr fv'"
    unfolding fv'_def fl_def using assms(1,2) by (rule setitem_passes)
  have look: "FlagDict fv' k =
      (case FlagDict fv k of
         None \<Rightarrow> Some f
       | Some old \<Rightarrow> if using_default_value (h old) \<or> \<not> using_default_value (h f)
                     then Some f else Some old)"
    by (simp add: FlagDict_def fv'_def map_of_bind_name same)
  have "FlagDict fv' k = Some f \<longleftrightarrow>
        (case FlagDict fv k of
           None \<Rightarrow> True
         | Some old \<Rightarrow> using_default_value (h old) \<or> \<not> using_default_value (h f))"
    by (auto simp: look split: option.splits)
  moreover have "case FlagDict fv k of
        None \<Rightarrow> True
      | Some old \<Rightarrow>
          \<not> using_default_value (h old) \<and> using_default_value (h f) \<longrightarrow>
          FlagDict fv' k = FlagDict fv k"
    by (auto simp: look split: option.splits)
  ultimately show ?thesis
    using res by blast
qed

theorem setitem_replacement_policy_witness:
  "''verbose'' \<noteq> [] \<and>
   passes_collision_checks diverge_store verbose_registry ''verbose'' (Suc 0) \<and>
   short_name (diverge_store (Suc 0)) \<noteq> Some ''verbose'' \<and>
   \<not> using_default_value (diverge_store 0) \<and> using_default_value (diverge_store (Suc 0)) \<and>
   (\<exists>fv'. setitem main_caller diverge_store verbose_registry ''verbose'' (Suc 0) = Inr fv' \<and>
          FlagDict fv' ''verbose'' = Some 0)"
proof -
  have a: "''verbose'' \<noteq> []"
    by simp
  have b: "passes_collision_checks diverge_store verbose_registry ''verbose'' (Suc 0)"
    by (simp add: passes_collision_checks_def collides_def diverge_store_def verbose_registry_def
        init_FlagValues_def plain_flag_def)
  have c: "short_name (diverge_store (Suc 0)) \<noteq> Some ''verbose''"
    by (simp add: diverge_store_def plain_flag_def)
  have d: "FlagDict verbose_registry ''verbose'' = Some 0"
    by (simp add: FlagDict_def verbose_registry_def init_FlagValues_def)
  have e: "\<not> using_default_value (diverge_store 0) \<and> using_default_value (diverge_store (Suc 0))"
    by (simp add: diverge_store_def plain_flag_def)
  from setitem_replacement_policy [OF a b c, of main_caller] d e
  have "\<exists>fv'. setitem main_caller diverge_store verbose_registry ''verbose'' (Suc 0) = Inr fv' \<and>
          FlagDict fv' ''verbose'' = Some 0"
    by auto
  with a b c e show ?thesis
    by blast
qed

text \<open>
  C1 as it is stated fails where the short name of the incoming flag is the key itself:
  line 327 binds the short name before line 328 looks at the key, so the flag found at
  the key is the incoming one. Object 0 is registered under \<open>x\<close> with the value 5;
  object 1 is at its default, and registering it under \<open>x\<close> replaces object 0.
\<close>

theorem setitem_alias_counterexample:
  "''x'' \<noteq> [] \<and>
   passes_collision_checks alias_store x_registry ''x'' (Suc 0) \<and>
   FlagDict x_registry ''x'' = Some 0 \<and>
   \<not> using_default_value (alias_store 0) \<and>
   using_default_value (alias_store (Suc 0)) \<and>
   setitem main_caller alias_store x_registry ''x'' (Suc 0)
     = Inr (x_registry\<lparr>flags := [(''x'', Suc 0)]\<rparr>) \<and>
   FlagDict (x_registry\<lparr>flags := [(''x'', Suc 0)]\<rparr>) ''x'' = Some (Suc 0)"
  by (simp add: passes_collision_checks_def collides_def alias_store_def x_registry_def
      init_FlagValues_def plain_flag_def FlagDict_def setitem_def bind_name_def Let_def)

text \<open>
  C10. A flag \<open>f\<close> with short name \<open>s\<close> that is registered under \<open>k\<close> and passes the
  collision checks is bound to \<open>s\<close> in every case. Where \<open>s\<close> is not \<open>k\<close>, the flag at
  \<open>k\<close> has a non-default value and \<open>f\<close> is at its default, \<open>k\<close> keeps its flag, so that
  \<open>k\<close> and \<open>s\<close> are bound to two different flag objects.
\<close>

theorem setitem_short_name_diverges:
  assumes "k \<noteq> []"
    and "passes_collision_checks h fv k f"
    and "short_name (h f) = Some s"
  shows "\<exists>fv'. setitem caller h fv k f = Inr fv' \<and> FlagDict fv' s = Some f \<and>
     (\<forall>old. s \<noteq> k \<and> FlagDict fv k = Some old \<and>
            \<not> using_default_value (h old) \<and> using_default_value (h f) \<longrightarrow>
            FlagDict fv' k = Some old \<and> old \<noteq> f)"
proof -
  define fv' where "fv' = fv\<lparr>flags := bind_name h (AList.update s f (flags fv)) k f\<rparr>"
  have res: "setitem caller h fv k f = Inr fv'"
    using setitem_passes [OF assms(1,2), of caller] assms(3) by (simp add: fv'_def)
  have short: "FlagDict fv' s = Some f"
  proof (cases "s = k")
    case True
    then show ?thesis
      by (simp add: FlagDict_def fv'_def map_of_bind_name update_conv')
  next
    case False
    then show ?thesis
      by (simp add: FlagDict_def fv'_def map_of_bind_name_other update_conv')
  qed
  have long: "FlagDict fv' k = Some old \<and> old \<noteq> f"
    if "s \<noteq> k" "FlagDict fv k = Some old"
      "\<not> using_default_value (h old)" "using_default_value (h f)" for old
    using that by (auto simp: FlagDict_def fv'_def map_of_bind_name update_conv')
  from res short long show ?thesis
    by blast
qed

text \<open>
  The registration sequence: object 0 under \<open>verbose\<close>, then object 1, which carries the
  short name \<open>v\<close>, under \<open>verbose\<close> again.
\<close>

theorem setitem_short_name_diverges_witness:
  "setitem main_caller diverge_store init_FlagValues ''verbose'' 0 = Inr verbose_registry \<and>
   ''verbose'' \<noteq> [] \<and>
   passes_collision_checks diverge_store verbose_registry ''verbose'' (Suc 0) \<and>
   short_name (diverge_store (Suc 0)) = Some ''v'' \<and>
   (\<exists>fv'. setitem main_caller diverge_store verbose_registry ''verbose'' (Suc 0) = Inr fv' \<and>
          FlagDict fv' ''v'' = Some (Suc 0) \<and> FlagDict fv' ''verbose'' = Some 0)"
proof -
  have first: "setitem main_caller diverge_store init_FlagValues ''verbose'' 0 = Inr verbose_registry"
    by (simp add: setitem_def collides_def bind_name_def diverge_store_def verbose_registry_def
        init_FlagValues_def plain_flag_def Let_def)
  have a: "''verbose'' \<noteq> []"
    by simp
  have b: "passes_collision_checks diverge_store verbose_registry ''verbose'' (Suc 0)"
    by (simp add: passes_collision_checks_def collides_def diverge_store_def verbose_registry_def
        init_FlagValues_def plain_flag_def)
  have c: "short_name (diverge_store (Suc 0)) = Some ''v''"
    by (simp add: diverge_store_def plain_flag_def)
  have d: "''v'' \<noteq> ''verbose'' \<and> FlagDict verbose_registry ''verbose'' = Some 0 \<and>
      \<not> using_default_value (diverge_store 0) \<and> using_default_value (diverge_store (Suc 0))"
    by (simp add: FlagDict_def verbose_registry_def init_FlagValues_def diverge_store_def
        plain_flag_def)
  from setitem_short_name_diverges [OF a b c, of main_caller] d
  have "\<exists>fv'. setitem main_caller diverge_store verbose_registry ''verbose'' (Suc 0) = Inr fv' \<and>
          FlagDict fv' ''v'' = Some (Suc 0) \<and> FlagDict fv' ''verbose'' = Some 0"
    by blast
  with first a b c show ?thesis
    by blast
qed

section \<open>Properties of deregistration\<close>

lemma removeAll_remove1: "removeAll x (remove1 x xs) = removeAll x xs"
  by (induction xs) auto

lemma remove_while_in_removeAll: "remove_while_in x xs = removeAll x xs"
proof (induction x xs rule: remove_while_in.induct)
  case (1 flag_obj flags_in_module)
  show ?case
  proof (cases "flag_obj \<in> set flags_in_module")
    case True
    then have "remove_while_in flag_obj flags_in_module
        = remove_while_in flag_obj (remove1 flag_obj flags_in_module)"
      by (subst remove_while_in.simps) simp
    also have "\<dots> = removeAll flag_obj (remove1 flag_obj flags_in_module)"
      using True by (rule "1.IH")
    finally show ?thesis
      by (simp add: removeAll_remove1)
  next
    case False
    then show ?thesis
      by (subst remove_while_in.simps) simp
  qed
qed

lemma RemoveFlagFromDictByModule_purged: "RemoveFlagFromDictByModule idx f = purged f idx"
  by (simp add: RemoveFlagFromDictByModule_def purged_def remove_while_in_removeAll)

lemma purged_no_occurrence: "(m, fs) \<in> set (purged f idx) \<Longrightarrow> f \<notin> set fs"
  by (auto simp: purged_def)

text \<open>
  C9. Deleting a name that is not a key fails with \<^verbatim>\<open>AttributeError\<close> (no registry is
  returned: nothing has changed). Deleting a key \<open>k\<close> bound to the flag \<open>f\<close> removes \<open>k\<close>
  and no other key; the three module indices are purged of \<open>f\<close> when neither the long
  name nor the short name of \<open>f\<close> is bound to \<open>f\<close> any more, and are left as they were
  otherwise; the other fields of the registry are unchanged.
\<close>

theorem delattr_deregisters:
  "(FlagDict fv k = None \<longrightarrow> delattr h fv k = Inl (AttributeError k)) \<and>
   (\<forall>f. FlagDict fv k = Some f \<longrightarrow>
      (\<exists>fv'. delattr h fv k = Inr fv' \<and>
         FlagDict fv' = (FlagDict fv)(k := None) \<and>
         (let still = (FlagDict fv' (name (h f)) = Some f \<or>
                       (\<exists>s. short_name (h f) = Some s \<and> FlagDict fv' s = Some f))
          in flags_by_module fv' = (if still then flags_by_module fv else purged f (flags_by_module fv)) \<and>
             flags_by_module_id fv' = (if still then flags_by_module_id fv else purged f (flags_by_module_id fv)) \<and>
             key_flags_by_module fv' = (if still then key_flags_by_module fv else purged f (key_flags_by_module fv))) \<and>
         hiddenflags fv' = hiddenflags fv \<and> flags_parsed fv' = flags_parsed fv \<and>
         use_gnu_getopt fv' = use_gnu_getopt fv))"
proof (intro conjI allI impI)
  assume "FlagDict fv k = None"
  then show "delattr h fv k = Inl (AttributeError k)"
    by (simp add: delattr_def FlagDict_def)
next
  fix f
  assume bound: "FlagDict fv k = Some f"
  define fl' where "fl' = AList.delete k (flags fv)"
  have reg: "FlagIsRegistered h fl' f \<longleftrightarrow>
      (map_of fl' (name (h f)) = Some f \<or> (\<exists>s. short_name (h f) = Some s \<and> map_of fl' s = Some f))"
    by (auto simp: FlagIsRegistered_def split: option.splits)
  show "\<exists>fv'. delattr h fv k = Inr fv' \<and>
         FlagDict fv' = (FlagDict fv)(k := None) \<and>
         (let still = (FlagDict fv' (name (h f)) = Some f \<or>
                       (\<exists>s. short_name (h f) = Some s \<and> FlagDict fv' s = Some f))
          in flags_by_module fv' = (if still then flags_by_module fv else purged f (flags_by_module fv)) \<and>
             flags_by_module_id fv' = (if still then flags_by_module_id fv else purged f (flags_by_module_id fv)) \<and>
             key_flags_by_module fv' = (if still then key_flags_by_module fv else purged f (key_flags_by_module fv))) \<and>
         hiddenflags fv' = hiddenflags fv \<and> flags_parsed fv' = flags_parsed fv \<and>
         use_gnu_getopt fv' = use_gnu_getopt fv"
  proof (cases "FlagIsRegistered h fl' f")
    case True
    then have res: "delattr h fv k = Inr (fv\<lparr>flags := fl'\<rparr>)"
      using bound by (simp add: delattr_def FlagDict_def fl'_def Let_def)
    show ?thesis
      unfolding res using True reg
      by (intro exI [of _ "fv\<lparr>flags := fl'\<rparr>"])
         (simp add: FlagDict_def fl'_def delete_conv' Let_def)
  next
    case False
    then have res: "delattr h fv k =
        Inr (fv\<lparr>flags := fl',
                 flags_by_module := purged f (flags_by_module fv),
                 flags_by_module_id := purged f (flags_by_module_id fv),
                 key_flags_by_module := purged f (key_flags_by_module fv)\<rparr>)"
      using bound
      by (simp add: delattr_def FlagDict_def fl'_def Let_def RemoveFlagFromDictByModule_purged)
    show ?thesis
      unfolding res using False reg
      by (intro exI [of _ "fv\<lparr>flags := fl',
                 flags_by_module := purged f (flags_by_module fv),
                 flags_by_module_id := purged f (flags_by_module_id fv),
                 key_flags_by_module := purged f (key_flags_by_module fv)\<rparr>"])
         (auto simp: FlagDict_def fl'_def delete_conv' Let_def)
  qed
qed

text \<open>
  Object 1 is registered as \<open>verbose\<close> and as \<open>v\<close>. Deleting \<open>v\<close> leaves it registered
  and in the indices; deleting \<open>verbose\<close> after that purges it; deleting \<open>v\<close> once more
  fails.
\<close>

theorem delattr_deregisters_witness:
  "FlagDict short_registry ''v'' = Some (Suc 0) \<and>
   delattr diverge_store short_registry ''v''
     = Inr (short_registry\<lparr>flags := [(''verbose'', Suc 0)]\<rparr>) \<and>
   delattr diverge_store (short_registry\<lparr>flags := [(''verbose'', Suc 0)]\<rparr>) ''verbose''
     = Inr (init_FlagValues\<lparr>flags_by_module := [(''__main__'', [])],
                             flags_by_module_id := [(1, [])],
                             key_flags_by_module := [(''__main__'', [])]\<rparr>) \<and>
   delattr diverge_store (short_registry\<lparr>flags := [(''verbose'', Suc 0)]\<rparr>) ''v''
     = Inl (AttributeError ''v'')"
proof -
  have a: "FlagDict short_registry ''v'' = Some (Suc 0)"
    by (simp add: FlagDict_def short_registry_def init_FlagValues_def)
  have b: "FlagDict (short_registry\<lparr>flags := [(''verbose'', Suc 0)]\<rparr>) ''verbose'' = Some (Suc 0)"
    by (simp add: FlagDict_def)
  have c: "FlagDict (short_registry\<lparr>flags := [(''verbose'', Suc 0)]\<rparr>) ''v'' = None"
    by (simp add: FlagDict_def)
  have n: "name (diverge_store (Suc 0)) = ''verbose''" "short_name (diverge_store (Suc 0)) = Some ''v''"
    by (simp_all add: diverge_store_def plain_flag_def)
  have e1: "delattr diverge_store short_registry ''v''
     = Inr (short_registry\<lparr>flags := [(''verbose'', Suc 0)]\<rparr>)"
    by (simp add: delattr_def short_registry_def init_FlagValues_def FlagIsRegistered_def
        diverge_store_def plain_flag_def Let_def)
  have e2: "delattr diverge_store (short_registry\<lparr>flags := [(''verbose'', Suc 0)]\<rparr>) ''verbose''
     = Inr (init_FlagValues\<lparr>flags_by_module := [(''__main__'', [])],
                             flags_by_module_id := [(1, [])],
                             key_flags_by_module := [(''__main__'', [])]\<rparr>)"
    by (simp add: delattr_def short_registry_def init_FlagValues_def FlagIsRegistered_def
        diverge_store_def plain_flag_def Let_def RemoveFlagFromDictByModule_purged purged_def)
  from delattr_deregisters [of "short_registry\<lparr>flags := [(''verbose'', Suc 0)]\<rparr>" "''v''" diverge_store] c
  have e3: "delattr diverge_store (short_registry\<lparr>flags := [(''verbose'', Suc 0)]\<rparr>) ''v''
     = Inl (AttributeError ''v'')"
    by blast
  from a e1 e2 e3 show ?thesis
    by simp
qed

section \<open>Properties of attribute access\<close>

text \<open>
  Neither an attribute-style assignment nor a scan breaks the tri-state of a flag: both
  clear \<^verbatim>\<open>using_default_value\<close> on the flag whose value they change.
\<close>

lemma setattr_keeps_default_intact:
  assumes "\<forall>r. default_intact (h r)"
  shows "\<forall>r. default_intact (fst (setattr ext h fv k v) r)"
  using assms
  by (auto simp: setattr_def default_intact_def Let_def split: option.splits)

lemma scan_token_keeps_default_intact:
  assumes "\<forall>r. default_intact (objects s r)"
  shows "case scan_token ext fv s arg rest of
           Continue s' rest' \<Rightarrow> \<forall>r. default_intact (objects s' r)
         | Stop s' \<Rightarrow> \<forall>r. default_intact (objects s' r)
         | Raise s' e \<Rightarrow> \<forall>r. default_intact (objects s' r)"
  using assms
  by (auto simp: scan_token_def positional_def parse_flag_def add_undefok_def record_unknown_def
      default_intact_def
      split: prod.splits option.splits list.splits sum.splits)

lemma ParseArgs_loop_keeps_default_intact:
  "\<forall>r. default_intact (objects s r) \<Longrightarrow>
   \<forall>r. default_intact (objects (fst (ParseArgs_loop ext fv s args)) r)"
proof (induction ext fv s args rule: ParseArgs_loop.induct)
  case (1 ext fv s)
  then show ?case by simp
next
  case (2 ext fv s arg rest)
  from scan_token_keeps_default_intact [OF "2.prems", of ext fv arg rest] "2.IH"
  show ?case
    by (cases "scan_token ext fv s arg rest") simp_all
qed

text \<open>
  C8, as the code has it. For a registered name that is not hidden, whose flag holds its
  default as long as it is using its default value: while the flag has been neither
  parsed nor assigned (\<^verbatim>\<open>present\<close> is 0 and \<^verbatim>\<open>using_default_value\<close> holds) and the
  registry is not marked parsed, the read returns the flag's default value in permissive
  mode, which is the mode when the environment variable is not set, and raises
  \<^verbatim>\<open>UnparsedFlagAccessError\<close> in strict mode, and it returns no value other than the
  default; once the registry is marked parsed or the flag is \<^verbatim>\<open>present\<close>, the read
  returns the flag's current value.
\<close>

theorem getattr_before_parse:
  assumes "FlagDict fv k = Some f" and "k \<notin> hiddenflags fv" and "default_intact (h f)"
  shows "(\<not> flags_parsed fv \<and> present (h f) = 0 \<and> using_default_value (h f) \<longrightarrow>
            (unparsed_access_allowed ext \<longrightarrow> getattr ext h fv k = Inr (flag_default (h f))) \<and>
            (allow_unparsed ext = None \<longrightarrow> getattr ext h fv k = Inr (flag_default (h f))) \<and>
            (\<not> unparsed_access_allowed ext \<longrightarrow>
               getattr ext h fv k = Inl (UnparsedFlagAccessError
                      (''Trying to access flag '' @ k @ '' before flags were parsed.''))) \<and>
            (\<forall>v. getattr ext h fv k = Inr v \<longrightarrow> v = flag_default (h f))) \<and>
         (flags_parsed fv \<or> present (h f) \<noteq> 0 \<longrightarrow> getattr ext h fv k = Inr (flag_value (h f)))"
proof -
  have found: "map_of (flags fv) k = Some f"
    using assms(1) by (simp add: FlagDict_def)
  have parsed: "getattr ext h fv k = Inr (flag_value (h f))"
    if "flags_parsed fv \<or> present (h f) \<noteq> 0"
    using that found assms(2) by (auto simp: getattr_def)
  have before: "getattr ext h fv k =
      (if unparsed_access_allowed ext then Inr (flag_default (h f))
       else Inl (UnparsedFlagAccessError
                      (''Trying to access flag '' @ k @ '' before flags were parsed.'')))"
    if "\<not> flags_parsed fv" "present (h f) = 0" "using_default_value (h f)"
  proof -
    from that(3) assms(3) have "flag_value (h f) = flag_default (h f)"
      by (simp add: default_intact_def)
    with that(1,2) found assms(2) show ?thesis
      by (simp add: getattr_def)
  qed
  have permissive: "unparsed_access_allowed ext" if "allow_unparsed ext = None"
    using that by (simp add: unparsed_access_allowed_def)
  show ?thesis
    using parsed before permissive by auto
qed

theorem getattr_before_parse_witness:
  "FlagDict x_registry ''x'' = Some 0 \<and> ''x'' \<notin> hiddenflags x_registry \<and>
   default_intact (x_store 0) \<and>
   \<not> flags_parsed x_registry \<and> present (x_store 0) = 0 \<and> using_default_value (x_store 0) \<and>
   flag_default (x_store 0) = PyInt 0 \<and>
   getattr no_externals x_store x_registry ''x'' = Inr (PyInt 0) \<and>
   getattr (no_externals\<lparr>allow_unparsed := Some ''0''\<rparr>) x_store x_registry ''x''
     = Inl (UnparsedFlagAccessError ''Trying to access flag x before flags were parsed.'') \<and>
   getattr (no_externals\<lparr>allow_unparsed := Some ''0''\<rparr>) x_store
     (x_registry\<lparr>flags_parsed := True\<rparr>) ''x'' = Inr (PyInt 0)"
proof -
  let ?strict = "no_externals\<lparr>allow_unparsed := Some ''0''\<rparr>"
  have a: "FlagDict x_registry ''x'' = Some 0" "''x'' \<notin> hiddenflags x_registry"
    "FlagDict (x_registry\<lparr>flags_parsed := True\<rparr>) ''x'' = Some 0"
    "''x'' \<notin> hiddenflags (x_registry\<lparr>flags_parsed := True\<rparr>)"
    by (simp_all add: FlagDict_def x_registry_def init_FlagValues_def)
  have w: "default_intact (x_store 0)"
    by (simp add: default_intact_def x_store_def plain_flag_def)
  have b: "\<not> flags_parsed x_registry \<and> present (x_store 0) = 0 \<and> using_default_value (x_store 0)"
    by (simp add: x_registry_def init_FlagValues_def x_store_def plain_flag_def)
  have d: "flag_default (x_store 0) = PyInt 0" "flag_value (x_store 0) = PyInt 0"
    by (simp_all add: x_store_def plain_flag_def)
  have c: "allow_unparsed no_externals = None" "\<not> unparsed_access_allowed ?strict"
    by (simp_all add: unparsed_access_allowed_def no_externals_def)
  have "getattr no_externals x_store x_registry ''x'' = Inr (flag_default (x_store 0))"
    using getattr_before_parse [where h = x_store and f = 0 and ext = no_externals, OF a(1,2) w] b c(1) by blast
  then have p: "getattr no_externals x_store x_registry ''x'' = Inr (PyInt 0)"
    by (simp only: d)
  have "getattr ?strict x_store x_registry ''x''
     = Inl (UnparsedFlagAccessError (''Trying to access flag '' @ ''x'' @ '' before flags were parsed.''))"
    using getattr_before_parse [where h = x_store and f = 0 and ext = ?strict, OF a(1,2) w] b c(2) by blast
  then have q: "getattr ?strict x_store x_registry ''x''
     = Inl (UnparsedFlagAccessError ''Trying to access flag x before flags were parsed.'')"
    by simp
  have "flags_parsed (x_registry\<lparr>flags_parsed := True\<rparr>)"
    by simp
  then have "getattr ?strict x_store (x_registry\<lparr>flags_parsed := True\<rparr>) ''x''
      = Inr (flag_value (x_store 0))"
    using getattr_before_parse [where h = x_store and f = 0 and ext = ?strict, OF a(3,4) w] by blast
  then have r: "getattr ?strict x_store (x_registry\<lparr>flags_parsed := True\<rparr>) ''x'' = Inr (PyInt 0)"
    by (simp only: d)
  from a(1,2) w b d(1) p q r show ?thesis
    by simp
qed

text \<open>
  C8 as it is stated fails after an attribute-style assignment, which sets the flag
  explicitly and leaves \<^verbatim>\<open>present\<close> at 0: the flag \<open>x\<close> has the default 0, is assigned 5
  and is read before any parse. The strict read raises although the flag is explicitly
  set, and the permissive read returns 5, which is not the default, although no parse
  has set the flag.
\<close>

theorem getattr_default_counterexample:
  "(case setattr no_externals x_store x_registry ''x'' (PyInt 5) of
      (h', res) \<Rightarrow>
        res = Inr (PyInt 5) \<and>
        \<not> flags_parsed x_registry \<and> present (h' 0) = 0 \<and>
        flag_default (h' 0) = PyInt 0 \<and>
        getattr no_externals h' x_registry ''x'' = Inr (PyInt 5) \<and>
        getattr (no_externals\<lparr>allow_unparsed := Some ''0''\<rparr>) h' x_registry ''x''
          = Inl (UnparsedFlagAccessError ''Trying to access flag x before flags were parsed.''))"
  by (simp add: setattr_def getattr_def unparsed_access_allowed_def no_externals_def
      x_store_def x_registry_def init_FlagValues_def plain_flag_def AssertValidators_def Let_def)

section \<open>Properties of \<^verbatim>\<open>ShortestUniquePrefixes\<close>\<close>


lemma find_append_case:
  "find P (xs @ ys) = (case find P xs of None \<Rightarrow> find P ys | Some x \<Rightarrow> Some x)"
  by (induction xs) auto

lemma find_map_comp: "find P (map f xs) = map_option f (find (\<lambda>x. P (f x)) xs)"
  by (induction xs) auto

lemma find_upt_greater:
  "a \<le> Suc M \<Longrightarrow> find (\<lambda>k. M < k) [a..<b] = (if Suc M < b then Some (Suc M) else None)"
proof (induction b)
  case 0
  then show ?case by simp
next
  case (Suc b)
  show ?case
  proof (cases "a \<le> b")
    case True
    then have "[a..<Suc b] = [a..<b] @ [b]"
      by simp
    with Suc show ?thesis
      by (auto simp: find_append_case)
  next
    case False
    with Suc.prems show ?thesis
      by simp
  qed
qed

lemma lcp_commute: "lcp xs ys = lcp ys xs"
proof (induction xs arbitrary: ys)
  case Nil
  then show ?case by (cases ys) simp_all
next
  case (Cons x xs)
  then show ?case by (cases ys) simp_all
qed

lemma lcp_le_length: "lcp xs ys \<le> length xs"
  by (induction xs ys rule: lcp.induct) auto

lemma lcp_agree: "i < lcp xs ys \<Longrightarrow> i < length ys \<and> xs ! i = ys ! i"
proof (induction xs ys arbitrary: i rule: lcp.induct)
  case (1 x xs y ys)
  then show ?case
    by (cases i) (auto split: if_splits)
qed auto

lemma lcp_differ:
  "lcp xs ys < length xs \<Longrightarrow> length ys \<le> lcp xs ys \<or> xs ! lcp xs ys \<noteq> ys ! lcp xs ys"
  by (induction xs ys rule: lcp.induct) auto

lemma startswith_take_lcp:
  "startswith nb (take k c) \<longleftrightarrow> min k (length c) \<le> lcp c nb"
proof (induction c arbitrary: nb k)
  case Nil
  then show ?case by (simp add: startswith_def)
next
  case (Cons x xs)
  show ?case
  proof (cases k)
    case 0
    then show ?thesis by (simp add: startswith_def)
  next
    case (Suc k')
    show ?thesis
    proof (cases nb)
      case Nil
      with Suc show ?thesis by (simp add: startswith_def)
    next
      case (Cons y ys)
      with Suc Cons.IH [of ys k'] show ?thesis
        by (auto simp: startswith_def)
    qed
  qed
qed

lemma break_index_Some:
  "break_index c (Some nb) = (if lcp c nb < length c then Some (lcp c nb) else None)"
proof (cases "lcp c nb < length c")
  case True
  have "find (\<lambda>i. length nb \<le> i \<or> c ! i \<noteq> nb ! i) [0..<length c] = Some (lcp c nb)"
    unfolding find_Some_iff
    using True lcp_differ [OF True] lcp_agree [of _ c nb]
    by (intro exI [of _ "lcp c nb"]) (auto simp: not_le)
  with True show ?thesis
    by (simp add: break_index_def)
next
  case False
  then have eq: "lcp c nb = length c"
    using lcp_le_length [of c nb] by simp
  have "find (\<lambda>i. length nb \<le> i \<or> c ! i \<noteq> nb ! i) [0..<length c] = None"
    unfolding find_None_iff using lcp_agree [of _ c nb] eq by (auto simp: not_le)
  with False show ?thesis
    by (simp add: break_index_def)
qed

lemma break_index_None: "break_index c None = (if c = [] then None else Some 0)"
  by (cases c) (simp_all add: break_index_def upt_rec)

lemma shortest_distinguishing_take:
  "shortest_distinguishing p c n = take (max (lcpo p c) (lcpo n c) + 1) c"
proof -
  define M where "M = max (lcpo p c) (lcpo n c)"
  have pred: "(distinguishes (take k c) p \<and> distinguishes (take k c) n) \<longleftrightarrow> M < k"
    if "k \<in> set [1..<Suc (length c)]" for k
    using that
    by (auto simp: distinguishes_def startswith_take_lcp lcpo_def M_def lcp_commute [of _ c]
        split: option.splits)
  have "find (\<lambda>q. distinguishes q p \<and> distinguishes q n) (map (\<lambda>k. take k c) [1..<Suc (length c)])
      = map_option (\<lambda>k. take k c)
          (find (\<lambda>k. distinguishes (take k c) p \<and> distinguishes (take k c) n) [1..<Suc (length c)])"
    by (rule find_map_comp)
  also have "find (\<lambda>k. distinguishes (take k c) p \<and> distinguishes (take k c) n) [1..<Suc (length c)]
      = find (\<lambda>k. M < k) [1..<Suc (length c)]"
    by (rule find_cong [OF refl]) (rule pred)
  also have "\<dots> = (if Suc M < Suc (length c) then Some (Suc M) else None)"
    by (rule find_upt_greater) simp
  finally have fnd:
    "find (\<lambda>q. distinguishes q p \<and> distinguishes q n) (map (\<lambda>k. take k c) [1..<Suc (length c)])
      = map_option (\<lambda>k. take k c) (if Suc M < Suc (length c) then Some (Suc M) else None)" .
  show ?thesis
  proof (cases "M < length c")
    case True
    then show ?thesis
      by (simp only: shortest_distinguishing_def fnd) (simp add: M_def)
  next
    case False
    then have "take (M + 1) c = c"
      by simp
    with False show ?thesis
      by (simp only: shortest_distinguishing_def fnd) (simp add: M_def)
  qed
qed

lemma prefixes_loop_spec:
  assumes "[] \<notin> set xs"
    and "xs \<noteq> [] \<longrightarrow> prev_idx = lcpo prev_flag (hd xs)"
  shows "prefixes_loop prev_idx curr_idx sm xs = Inr (assign_all (spec_prefixes prev_flag xs) sm)"
  using assms
proof (induction xs arbitrary: prev_idx curr_idx sm prev_flag)
  case Nil
  then show ?case by (simp add: assign_all_def)
next
  case (Cons c rest)
  then have ne: "c \<noteq> []" and rest: "[] \<notin> set rest" and pi: "prev_idx = lcpo prev_flag c"
    by auto
  show ?case
  proof (cases rest)
    case Nil
    with ne pi show ?thesis
      by (simp add: break_index_None shortest_distinguishing_take lcpo_def assign_all_def)
  next
    case (Cons nb rest')
    show ?thesis
    proof (cases "lcp c nb < length c")
      case True
      have "prefixes_loop (lcp c nb) (Some (lcp c nb))
              (AList.update c (take (max prev_idx (lcp c nb) + 1) c) sm) rest
            = Inr (assign_all (spec_prefixes (Some c) rest)
                    (AList.update c (take (max prev_idx (lcp c nb) + 1) c) sm))"
        by (rule Cons.IH [OF rest]) (simp add: Cons lcpo_def)
      with True pi show ?thesis
        by (simp add: Cons break_index_Some shortest_distinguishing_take lcpo_def assign_all_def
            lcp_commute [of nb c])
    next
      case False
      then have eq: "lcp c nb = length c"
        using lcp_le_length [of c nb] by simp
      have "prefixes_loop (length c - 1 + 1) (Some (length c - 1)) (AList.update c c sm) rest
            = Inr (assign_all (spec_prefixes (Some c) rest) (AList.update c c sm))"
        using ne by (intro Cons.IH [OF rest]) (simp add: Cons lcpo_def eq)
      with False ne pi eq show ?thesis
        by (simp add: Cons break_index_Some shortest_distinguishing_take lcpo_def assign_all_def
            lcp_commute [of nb c])
    qed
  qed
qed


lemma sorted_flags_no_boolean:
  "list_all (\<lambda>(n, f). \<not> boolean (h f)) fl \<Longrightarrow> sorted_flags h fl = sort (map fst fl)"
proof -
  assume "list_all (\<lambda>(n, f). \<not> boolean (h f)) fl"
  then have "concat (map (\<lambda>(n, f). if boolean (h f) then [n, ''no'' @ n] else [n]) fl) = map fst fl"
    by (induction fl) auto
  then show ?thesis
    by (simp add: sorted_flags_def)
qed

lemma sorted_flags_nonempty: "[] \<notin> fst ` set fl \<Longrightarrow> [] \<notin> set (sorted_flags h fl)"
  by (fastforce simp: sorted_flags_def image_iff split: if_splits)

lemma sorted_flags_sorted: "sorted (sorted_flags h fl)"
  by (simp add: sorted_flags_def)

lemma sorted_flags_mset:
  "mset (sorted_flags h fl) =
     mset (map fst fl) + mset (map (\<lambda>(n, f). ''no'' @ n) (filter (\<lambda>(n, f). boolean (h f)) fl))"
proof -
  have "mset (concat (map (\<lambda>(n, f). if boolean (h f) then [n, ''no'' @ n] else [n]) fl)) =
     mset (map fst fl) + mset (map (\<lambda>(n, f). ''no'' @ n) (filter (\<lambda>(n, f). boolean (h f)) fl))"
    by (induction fl) auto
  then show ?thesis
    by (simp add: sorted_flags_def)
qed

text \<open>
  What the loop does on dictionaries without the empty name. The names are taken in
  sorted order, each boolean flag a second time under its \<^verbatim>\<open>no\<close> name, and each name is
  assigned the shortest left-substring that is a prefix of neither its predecessor nor
  its successor in that list, or the whole name where every left-substring is shared with
  a neighbour. For the names \<open>alpha\<close>, \<open>alphabet\<close>, \<open>beta\<close> without boolean flags, in any
  order of the dictionary, \<open>alpha\<close> is assigned \<open>alpha\<close> (5 characters), \<open>alphabet\<close> is
  assigned \<open>alphab\<close>, and \<open>beta\<close> is assigned \<open>b\<close>.
\<close>

lemma ShortestUniquePrefixes_nonempty_names:
  assumes "[] \<notin> fst ` set fl"
  shows "ShortestUniquePrefixes h fl = Inr (assign_all (spec_prefixes None (sorted_flags h fl)) []) \<and>
     sorted (sorted_flags h fl) \<and>
     mset (sorted_flags h fl) =
       mset (map fst fl) + mset (map (\<lambda>(n, f). ''no'' @ n) (filter (\<lambda>(n, f). boolean (h f)) fl)) \<and>
     (distinct (map fst fl) \<and> set (map fst fl) = {''alpha'', ''alphabet'', ''beta''} \<and>
      list_all (\<lambda>(n, f). \<not> boolean (h f)) fl \<longrightarrow>
        (\<exists>sm. ShortestUniquePrefixes h fl = Inr sm \<and>
              map_of sm ''alpha'' = Some ''alpha'' \<and>
              map_of sm ''alphabet'' = Some ''alphab'' \<and>
              map_of sm ''beta'' = Some ''b''))"
proof (intro conjI impI)
  show "ShortestUniquePrefixes h fl = Inr (assign_all (spec_prefixes None (sorted_flags h fl)) [])"
    unfolding ShortestUniquePrefixes_def
    by (rule prefixes_loop_spec [OF sorted_flags_nonempty [OF assms]]) (simp add: lcpo_def)
next
  show "sorted (sorted_flags h fl)"
    by (rule sorted_flags_sorted)
next
  show "mset (sorted_flags h fl) =
       mset (map fst fl) + mset (map (\<lambda>(n, f). ''no'' @ n) (filter (\<lambda>(n, f). boolean (h f)) fl))"
    by (rule sorted_flags_mset)
next
  assume ex: "distinct (map fst fl) \<and> set (map fst fl) = {''alpha'', ''alphabet'', ''beta''} \<and>
      list_all (\<lambda>(n, f). \<not> boolean (h f)) fl"
  have "sort (map fst fl) = [''alpha'', ''alphabet'', ''beta'']"
    using ex by (intro sorted_distinct_set_unique) auto
  with ex have names: "sorted_flags h fl = [''alpha'', ''alphabet'', ''beta'']"
    by (simp add: sorted_flags_no_boolean)
  have "prefixes_loop 0 None [] [''alpha'', ''alphabet'', ''beta'']
      = Inr [(''alpha'', ''alpha''), (''alphabet'', ''alphab''), (''beta'', ''b'')]"
    by (simp add: break_index_def upt_rec)
  then show "\<exists>sm. ShortestUniquePrefixes h fl = Inr sm \<and>
              map_of sm ''alpha'' = Some ''alpha'' \<and>
              map_of sm ''alphabet'' = Some ''alphab'' \<and>
              map_of sm ''beta'' = Some ''b''"
    by (simp add: ShortestUniquePrefixes_def names)
qed

lemma ShortestUniquePrefixes_example:
  "ShortestUniquePrefixes x_store [(''beta'', 0), (''alpha'', 0), (''alphabet'', 0)]
     = Inr [(''alpha'', ''alpha''), (''alphabet'', ''alphab''), (''beta'', ''b'')] \<and>
   spec_prefixes None (sorted_flags x_store [(''beta'', 0), (''alpha'', 0), (''alphabet'', 0)])
     = [(''alpha'', ''alpha''), (''alphabet'', ''alphab''), (''beta'', ''b'')]"
proof -
  have a: "[] \<notin> fst ` set [(''beta'', 0 :: nat), (''alpha'', 0), (''alphabet'', 0)]"
    by simp
  have s: "sorted_flags x_store [(''beta'', 0), (''alpha'', 0), (''alphabet'', 0)]
      = [''alpha'', ''alphabet'', ''beta'']"
    by (simp add: sorted_flags_def x_store_def plain_flag_def)
  have sp: "spec_prefixes None [''alpha'', ''alphabet'', ''beta'']
     = [(''alpha'', ''alpha''), (''alphabet'', ''alphab''), (''beta'', ''b'')]"
    by (simp add: shortest_distinguishing_def distinguishes_def startswith_def upt_rec)
  have "ShortestUniquePrefixes x_store [(''beta'', 0), (''alpha'', 0), (''alphabet'', 0)]
      = Inr (assign_all (spec_prefixes None
               (sorted_flags x_store [(''beta'', 0), (''alpha'', 0), (''alphabet'', 0)])) [])"
    using ShortestUniquePrefixes_nonempty_names [OF a, of x_store] by (rule conjunct1)
  then have "ShortestUniquePrefixes x_store [(''beta'', 0), (''alpha'', 0), (''alphabet'', 0)]
     = Inr [(''alpha'', ''alpha''), (''alphabet'', ''alphab''), (''beta'', ''b'')]"
    by (simp only: s sp) (simp add: assign_all_def)
  moreover have "spec_prefixes None (sorted_flags x_store [(''beta'', 0), (''alpha'', 0), (''alphabet'', 0)])
     = [(''alpha'', ''alpha''), (''alphabet'', ''alphab''), (''beta'', ''b'')]"
    by (simp only: s sp)
  ultimately show ?thesis
    by blast
qed

text \<open>The empty name is the least name, so it is the first of the sorted list.\<close>

lemma sorted_Nil_first:
  assumes "sorted xs" and "[] \<in> set xs"
  shows "\<exists>rest. xs = ([] :: string) # rest"
proof (cases xs)
  case Nil
  with assms(2) show ?thesis by simp
next
  case (Cons x rest)
  with assms have "x \<le> []"
    by auto
  then have "x = []"
    by simp
  with Cons show ?thesis
    by simp
qed

lemma ShortestUniquePrefixes_empty_name:
  assumes "[] \<in> fst ` set fl"
  shows "ShortestUniquePrefixes h fl = Inl (UnboundLocalError ''curr_idx'')"
proof -
  have "[] \<in> set (sorted_flags h fl)"
    using assms by (force simp: sorted_flags_def)
  with sorted_flags_sorted [of h fl] obtain rest where "sorted_flags h fl = [] # rest"
    using sorted_Nil_first by blast
  then show ?thesis
    by (simp add: ShortestUniquePrefixes_def break_index_def)
qed

text \<open>
  C7 fails on the code where the dictionary holds the empty name, which line 327 binds
  when a flag's short name is the empty string. The flag \<open>x\<close> with that short name
  registers, and on the dictionary of the registry \<^verbatim>\<open>ShortestUniquePrefixes\<close> raises
  \<^verbatim>\<open>UnboundLocalError\<close>: the empty name is first in the sorted list, the inner loop does not
  run for it, and line 872 reads \<^verbatim>\<open>curr_idx\<close>, which no loop has bound. No name is
  assigned a prefix.
\<close>

theorem ShortestUniquePrefixes_empty_name_raises:
  "setitem main_caller empty_short_store init_FlagValues ''x'' 0
     = Inr (init_FlagValues\<lparr>flags := [([], 0), (''x'', 0)]\<rparr>) \<and>
   ShortestUniquePrefixes empty_short_store [([], 0), (''x'', 0)]
     = Inl (UnboundLocalError ''curr_idx'')"
proof -
  have "setitem main_caller empty_short_store init_FlagValues ''x'' 0
     = Inr (init_FlagValues\<lparr>flags := [([], 0), (''x'', 0)]\<rparr>)"
    by (simp add: setitem_def collides_def bind_name_def empty_short_store_def
        init_FlagValues_def plain_flag_def Let_def)
  moreover have "ShortestUniquePrefixes empty_short_store [([], 0), (''x'', 0)]
     = Inl (UnboundLocalError ''curr_idx'')"
    by (rule ShortestUniquePrefixes_empty_name) simp
  ultimately show ?thesis
    by simp
qed

section \<open>Properties of the flag file expansion\<close>






lemma flag_lines_returns:
  assumes "\<And>filename. \<exists>r. GetFlagFileLines depth ext filename stack = Some r"
  shows "\<exists>r. flag_lines depth ext line_list stack acc = Some r"
proof (induction line_list arbitrary: acc)
  case Nil
  show ?case by simp
next
  case (Cons line line_list)
  show ?case
  proof (cases "\<not> isspace line \<and> \<not> (startswith line ''#'' \<or> startswith line ''//'')
                \<and> IsFlagFileDirective line")
    case False
    with Cons.IH show ?thesis
      by auto
  next
    case True
    show ?thesis
    proof (cases "ExtractFilename ext line")
      case (Inl e)
      with True show ?thesis by simp
    next
      case (Inr sub)
      from assms [of sub] obtain r where r: "GetFlagFileLines depth ext sub stack = Some r"
        by blast
      show ?thesis
      proof (cases r)
        case (Inl e)
        with True Inr r show ?thesis by simp
      next
        case included: (Inr included_flags)
        with True Inr r Cons.IH [of "acc @ included_flags"] show ?thesis by simp
      qed
    qed
  qed
qed

lemma GetFlagFileLines_returns:
  assumes fin: "finite (readable_files ext)"
  shows "card (readable_files ext - set stack) < depth \<Longrightarrow>
         \<exists>r. GetFlagFileLines depth ext filename stack = Some r"
proof (induction depth arbitrary: filename stack)
  case 0
  then show ?case by simp
next
  case (Suc depth)
  show ?case
  proof (cases "filename \<in> set stack")
    case True
    then show ?thesis by simp
  next
    case False
    show ?thesis
    proof (cases "files ext filename")
      case (Inl e_msg)
      with False show ?thesis by simp
    next
      case (Inr contents)
      then have mem: "filename \<in> readable_files ext - set stack"
        using False by (auto simp: readable_files_def)
      have eq: "readable_files ext - set (stack @ [filename])
          = (readable_files ext - set stack) - {filename}"
        by auto
      have "finite (readable_files ext - set stack)"
        using fin by simp
      then have "card ((readable_files ext - set stack) - {filename})
          < card (readable_files ext - set stack)"
        using mem by (rule card_Diff1_less)
      then have "card (readable_files ext - set (stack @ [filename]))
          < card (readable_files ext - set stack)"
        by (simp only: eq)
      with Suc.prems have less: "card (readable_files ext - set (stack @ [filename])) < depth"
        by simp
      have "\<exists>r. flag_lines depth ext (readlines contents) (stack @ [filename]) [] = Some r"
        by (rule flag_lines_returns) (rule Suc.IH [OF less])
      with False Inr show ?thesis
        by simp
    qed
  qed
qed

lemma nested_call_distinct:
  assumes "(nested_call ext)\<^sup>*\<^sup>* a b" and "distinct (snd a)"
  shows "distinct (snd b)"
  using assms
proof (induction rule: rtranclp_induct)
  case base
  then show ?case by simp
next
  case (step y z)
  from step.hyps(2) step.IH [OF step.prems] show ?case
    by (auto elim!: nested_call.cases)
qed

text \<open>
  C6. Where finitely many files can be read, \<^verbatim>\<open>__GetFlagFileLines\<close> returns (lines or an
  error) whatever the files include, cycles too, as soon as it may be entered more deeply
  than there are readable files that are not on the stack. A file name that is on the
  stack contributes the empty list and is not read again. On every path of nested calls
  from a first call with the empty stack, the stack holds each file name at most once.
\<close>

theorem GetFlagFileLines_terminates:
  assumes "finite (readable_files ext)"
  shows "(card (readable_files ext - set parsed_file_stack) < depth \<longrightarrow>
            (\<exists>r. GetFlagFileLines depth ext filename parsed_file_stack = Some r)) \<and>
         (filename \<in> set parsed_file_stack \<longrightarrow>
            GetFlagFileLines (Suc depth) ext filename parsed_file_stack = Some (Inr [])) \<and>
         (\<forall>sub stack. (nested_call ext)\<^sup>*\<^sup>* (filename, []) (sub, stack) \<longrightarrow> distinct stack)"
proof (intro conjI impI allI)
  assume "card (readable_files ext - set parsed_file_stack) < depth"
  then show "\<exists>r. GetFlagFileLines depth ext filename parsed_file_stack = Some r"
    by (rule GetFlagFileLines_returns [OF assms])
next
  assume "filename \<in> set parsed_file_stack"
  then show "GetFlagFileLines (Suc depth) ext filename parsed_file_stack = Some (Inr [])"
    by simp
next
  fix sub stack
  assume "(nested_call ext)\<^sup>*\<^sup>* (filename, []) (sub, stack)"
  from nested_call_distinct [OF this] show "distinct stack"
    by simp
qed

text \<open>
  The files \<open>a.cfg\<close> and \<open>b.cfg\<close> include each other, \<open>self.cfg\<close> includes itself:
  the expansion of \<open>a.cfg\<close> has the lines of both files once, in place.
\<close>

lemma cyclic_readable:
  "readable_files (no_externals\<lparr>files := cyclic_files\<rparr>) = {''a.cfg'', ''b.cfg'', ''self.cfg''}"
  by (auto simp: readable_files_def cyclic_files_def split: if_splits)

theorem GetFlagFileLines_terminates_witness:
  "finite (readable_files (no_externals\<lparr>files := cyclic_files\<rparr>)) \<and>
   card (readable_files (no_externals\<lparr>files := cyclic_files\<rparr>) - set []) < 4 \<and>
   (\<exists>r. GetFlagFileLines 4 (no_externals\<lparr>files := cyclic_files\<rparr>) ''a.cfg'' [] = Some r) \<and>
   GetFlagFileLines 4 (no_externals\<lparr>files := cyclic_files\<rparr>) ''a.cfg'' []
     = Some (Inr [''--x=1'', ''--y=2'', ''--z=3'']) \<and>
   GetFlagFileLines 4 (no_externals\<lparr>files := cyclic_files\<rparr>) ''self.cfg'' []
     = Some (Inr [''--w=4'']) \<and>
   ''a.cfg'' \<in> set [''a.cfg''] \<and>
   GetFlagFileLines (Suc 0) (no_externals\<lparr>files := cyclic_files\<rparr>) ''a.cfg'' [''a.cfg'']
     = Some (Inr [])"
proof -
  let ?ext = "no_externals\<lparr>files := cyclic_files\<rparr>"
  have fin: "finite (readable_files ?ext)"
    by (simp add: cyclic_readable)
  have crd: "card (readable_files ?ext - set []) < 4"
    by (simp add: cyclic_readable)
  note th = GetFlagFileLines_terminates [OF fin]
  have "card (readable_files ?ext - set []) < 4 \<longrightarrow>
      (\<exists>r. GetFlagFileLines 4 ?ext ''a.cfg'' [] = Some r)"
    using th [of "[]" 4 "''a.cfg''"] by (rule conjunct1)
  with crd have ret: "\<exists>r. GetFlagFileLines 4 ?ext ''a.cfg'' [] = Some r"
    by blast
  have "''a.cfg'' \<in> set [''a.cfg''] \<longrightarrow>
      GetFlagFileLines (Suc 0) ?ext ''a.cfg'' [''a.cfg''] = Some (Inr [])"
    using th [of "[''a.cfg'']" 0 "''a.cfg''"] by blast
  then have stk: "GetFlagFileLines (Suc 0) ?ext ''a.cfg'' [''a.cfg''] = Some (Inr [])"
    by simp
  have ev1: "GetFlagFileLines 4 ?ext ''a.cfg'' [] = Some (Inr [''--x=1'', ''--y=2'', ''--z=3''])"
    by (simp add: eval_nat_numeral cyclic_files_def isspace_def startswith_def
        IsFlagFileDirective_def ExtractFilename_def strip_def whitespace_def no_externals_def)
  have ev2: "GetFlagFileLines 4 ?ext ''self.cfg'' [] = Some (Inr [''--w=4''])"
    by (simp add: eval_nat_numeral cyclic_files_def isspace_def startswith_def
        IsFlagFileDirective_def ExtractFilename_def strip_def whitespace_def no_externals_def)
  from fin crd ret stk ev1 ev2 show ?thesis
    by simp
qed

section \<open>Properties of the argument scanner\<close>








lemma replay_append: "replay ext (cs @ ds) h = replay ext ds (replay ext cs h)"
  by (induction cs arbitrary: h) (auto split: sum.splits)

lemma scan_token_replay:
  "\<exists>new. parse_calls (scan_of (scan_token ext fv s arg rest)) = parse_calls s @ new \<and>
         objects (scan_of (scan_token ext fv s arg rest)) = replay ext new (objects s)"
proof -
  have pf: "\<exists>new. parse_calls (scan_of (parse_flag ext s f v r)) = parse_calls s @ new \<and>
         objects (scan_of (parse_flag ext s f v r)) = replay ext new (objects s)" for f v r
    by (rule exI [of _ "[(f, v)]"]) (simp add: parse_flag_def split: sum.splits)
  have keep: "\<exists>new. parse_calls s' = parse_calls s @ new \<and> objects s' = replay ext new (objects s)"
    if "parse_calls s' = parse_calls s" "objects s' = objects s" for s'
    using that by (intro exI [of _ "[]"]) simp
  show ?thesis
    unfolding scan_token_def positional_def
    by (auto simp: pf add_undefok_def record_unknown_def intro!: keep
        split: prod.splits option.splits list.splits)
qed

lemma ParseArgs_loop_replay:
  "\<exists>new. parse_calls (fst (ParseArgs_loop ext fv s args)) = parse_calls s @ new \<and>
         objects (fst (ParseArgs_loop ext fv s args)) = replay ext new (objects s)"
proof (induction ext fv s args rule: ParseArgs_loop.induct)
  case (1 ext fv s)
  show ?case by (intro exI [of _ "[]"]) simp
next
  case (2 ext fv s arg rest)
  from scan_token_replay [of ext fv s arg rest] obtain new
    where new: "parse_calls (scan_of (scan_token ext fv s arg rest)) = parse_calls s @ new"
      "objects (scan_of (scan_token ext fv s arg rest)) = replay ext new (objects s)"
    by blast
  show ?case
  proof (cases "scan_token ext fv s arg rest")
    case (Continue s' rest')
    from "2.IH" [OF Continue] obtain more
      where more: "parse_calls (fst (ParseArgs_loop ext fv s' rest')) = parse_calls s' @ more"
        "objects (fst (ParseArgs_loop ext fv s' rest')) = replay ext more (objects s')"
      by blast
    with new Continue show ?thesis
      by (intro exI [of _ "new @ more"]) (simp add: replay_append)
  next
    case (Stop s')
    with new show ?thesis by (intro exI [of _ new]) simp
  next
    case (Raise s' e)
    with new show ?thesis by (intro exI [of _ new]) simp
  qed
qed

lemma ParseArgs_replay:
  "ParseArgs ext h fv args = (s, r) \<Longrightarrow> objects s = replay ext (parse_calls s) h"
  using ParseArgs_loop_replay [of ext fv "init_scan h" args]
  by (auto simp: ParseArgs_def init_scan_def)

lemma scan_token_not_unrecognized:
  "scan_token ext fv s arg rest = Raise s' e \<Longrightarrow> \<not> is_unrecognized e"
  by (auto simp: scan_token_def positional_def parse_flag_def is_unrecognized_def
      split: if_splits prod.splits option.splits list.splits sum.splits)

lemma ParseArgs_loop_not_unrecognized:
  "ParseArgs_loop ext fv s args = (s', Some e) \<Longrightarrow> \<not> is_unrecognized e"
proof (induction ext fv s args rule: ParseArgs_loop.induct)
  case (1 ext fv s)
  then show ?case by simp
next
  case (2 ext fv s arg rest)
  then show ?case
    by (cases "scan_token ext fv s arg rest") (auto dest: scan_token_not_unrecognized)
qed

lemma verify_each_not_unrecognized:
  "verify_each ext h fv vs = Some e \<Longrightarrow> \<not> is_unrecognized e"
  by (induction vs) (auto simp: is_unrecognized_def split: verify_result.splits)

lemma finish_call_not_unrecognized:
  "finish_call ext h fv result = (h', fv', Inl e) \<Longrightarrow> \<not> is_unrecognized e"
  by (auto simp: finish_call_def AssertAllValidators_def AssertValidators_def
      dest: verify_each_not_unrecognized split: option.splits)

lemma ExtractFilename_not_unrecognized:
  "ExtractFilename ext str = Inl e \<Longrightarrow> \<not> is_unrecognized e"
  by (auto simp: ExtractFilename_def is_unrecognized_def split: if_splits)

lemma GetFlagFileLines_not_unrecognized:
  "GetFlagFileLines depth ext filename stack = Some (Inl e) \<Longrightarrow> \<not> is_unrecognized e"
  "flag_lines depth ext line_list stack acc = Some (Inl e) \<Longrightarrow> \<not> is_unrecognized e"
proof (induction depth ext filename stack and depth ext line_list stack acc
    rule: GetFlagFileLines_flag_lines.induct)
  case (1 ext filename parsed_file_stack)
  then show ?case by simp
next
  case (2 depth ext filename parsed_file_stack)
  then show ?case
    by (auto simp: is_unrecognized_def split: if_splits sum.splits)
next
  case (3 depth ext parsed_file_stack flag_line_list)
  then show ?case by simp
next
  case (4 depth ext line line_list parsed_file_stack flag_line_list)
  then show ?case
    by (auto dest: ExtractFilename_not_unrecognized split: if_splits sum.splits option.splits)
qed

lemma ReadFlagsFromFiles_loop_not_unrecognized:
  "ReadFlagsFromFiles_loop depth ext h fv force_gnu rest new_argv = Some (Inl e)
   \<Longrightarrow> \<not> is_unrecognized e"
proof (induction depth ext h fv force_gnu rest new_argv rule: ReadFlagsFromFiles_loop.induct)
  case (1 depth ext h fv force_gnu new_argv)
  then show ?case by simp
next
  case (2 depth ext h fv force_gnu current_arg rest_of_args new_argv)
  show ?case
  proof (cases "IsFlagFileDirective current_arg")
    case True
    with 2 show ?thesis
      by (auto simp: is_unrecognized_def
          dest: ExtractFilename_not_unrecognized GetFlagFileLines_not_unrecognized(1)
          split: if_splits list.splits sum.splits option.splits)
  next
    case False
    with 2 show ?thesis
      by (auto split: if_splits list.splits)
  qed
qed


text \<open>
  The unknown flags are recorded in the order of the arguments, each as the token itself
  with the name split from it.
\<close>

lemma scan_token_rest:
  "scan_token ext fv s arg rest = Continue s' rest' \<Longrightarrow> rest' = rest \<or> (\<exists>v. rest = v # rest')"
  by (auto simp: scan_token_def positional_def parse_flag_def
      split: if_splits prod.splits option.splits list.splits sum.splits)

lemma scan_token_unknown:
  "unknown_flags (scan_of (scan_token ext fv s arg rest)) = unknown_flags s \<or>
   unknown_flags (scan_of (scan_token ext fv s arg rest))
     = unknown_flags s @ [(fst (split_arg arg), arg)]"
  by (auto simp: scan_token_def positional_def parse_flag_def add_undefok_def record_unknown_def
      split: prod.splits option.splits list.splits sum.splits)

lemma ParseArgs_loop_unknown:
  "\<exists>new. unknown_flags (fst (ParseArgs_loop ext fv s args)) = unknown_flags s @ new \<and>
         subseq (map snd new) args \<and> list_all (\<lambda>(n, a). n = fst (split_arg a)) new"
proof (induction ext fv s args rule: ParseArgs_loop.induct)
  case (1 ext fv s)
  show ?case by (intro exI [of _ "[]"]) simp
next
  case (2 ext fv s arg rest)
  from scan_token_unknown [of ext fv s arg rest] obtain one
    where one: "unknown_flags (scan_of (scan_token ext fv s arg rest)) = unknown_flags s @ one"
      "one = [] \<or> one = [(fst (split_arg arg), arg)]"
    by auto
  show ?case
  proof (cases "scan_token ext fv s arg rest")
    case (Continue s' rest')
    from "2.IH" [OF Continue] obtain more
      where more: "unknown_flags (fst (ParseArgs_loop ext fv s' rest')) = unknown_flags s' @ more"
        "subseq (map snd more) rest'" "list_all (\<lambda>(n, a). n = fst (split_arg a)) more"
      by blast
    from scan_token_rest [OF Continue] have "subseq rest' rest"
      by auto
    with more(2) have "subseq (map snd more) rest"
      by (rule subseq_order.order_trans)
    then have "subseq (map snd (one @ more)) (arg # rest)"
      using one(2) by auto
    moreover have "list_all (\<lambda>(n, a). n = fst (split_arg a)) (one @ more)"
      using one(2) more(3) by auto
    moreover have "unknown_flags (fst (ParseArgs_loop ext fv s (arg # rest)))
        = unknown_flags s @ one @ more"
      using Continue one(1) more(1) by simp
    ultimately show ?thesis
      by blast
  next
    case (Stop s')
    with one show ?thesis
      by (intro exI [of _ one]) auto
  next
    case (Raise s' e)
    with one show ?thesis
      by (intro exI [of _ one]) auto
  qed
qed

lemma ParseArgs_unknown:
  assumes "ParseArgs ext h fv args = (s, r)"
  shows "subseq (map snd (unknown_flags s)) args \<and>
         list_all (\<lambda>(n, a). n = fst (split_arg a)) (unknown_flags s)"
  using ParseArgs_loop_unknown [of ext fv "init_scan h" args] assms
  by (auto simp: ParseArgs_def init_scan_def)

lemma replay_other: "f \<notin> fst ` set cs \<Longrightarrow> replay ext cs h f = h f"
  by (induction cs arbitrary: h) (auto split: sum.splits)

lemma replay_last_value:
  assumes "cs = before @ (f, v) # after" and "f \<notin> fst ` set after"
    and "parser_Parse ext (replay ext before h f) v = Inr x"
  shows "flag_value (replay ext cs h f) = x \<and> \<not> using_default_value (replay ext cs h f)"
  using assms by (simp add: replay_append replay_other flag_Parse_def)

lemma call_raises_unrecognized:
  assumes "call depth ext h fv argv = Some (h', fv', Inl (UnrecognizedFlagError n v sg))"
  shows "\<exists>program_name args args' s.
      argv = program_name # args \<and>
      ReadFlagsFromFiles depth ext h fv args False = Some (Inr args') \<and>
      ParseArgs ext h fv args' = (s, None) \<and>
      find (\<lambda>(n, v). n \<notin> undefok s) (unknown_flags s) = Some (n, v) \<and>
      subseq (map snd (unknown_flags s)) args' \<and>
      list_all (\<lambda>(n, a). n = fst (split_arg a)) (unknown_flags s) \<and>
      h' = objects s \<and> h' = replay ext (parse_calls s) h \<and> fv' = fv"
proof (cases argv)
  case Nil
  with assms have "finish_call ext h fv [] = (h', fv', Inl (UnrecognizedFlagError n v sg))"
    by (simp add: call_def)
  from finish_call_not_unrecognized [OF this] show ?thesis
    by (simp add: is_unrecognized_def)
next
  case (Cons program_name args)
  show ?thesis
  proof (cases "ReadFlagsFromFiles depth ext h fv args False")
    case None
    with assms Cons show ?thesis
      by (simp add: call_def)
  next
    case (Some expanded)
    show ?thesis
    proof (cases expanded)
      case (Inl e)
      with assms Cons Some have "e = UnrecognizedFlagError n v sg"
        by (simp add: call_def)
      moreover from Some Inl
      have "ReadFlagsFromFiles_loop depth ext h fv False args [] = Some (Inl e)"
        by (simp add: ReadFlagsFromFiles_def)
      then have "\<not> is_unrecognized e"
        by (rule ReadFlagsFromFiles_loop_not_unrecognized)
      ultimately show ?thesis
        by (simp add: is_unrecognized_def)
    next
      case (Inr args')
      with assms Cons Some
      have sa: "scan_args ext h fv program_name args' = (h', fv', Inl (UnrecognizedFlagError n v sg))"
        by (simp add: call_def)
      obtain s r where pa: "ParseArgs ext h fv args' = (s, r)"
        by (cases "ParseArgs ext h fv args'")
      show ?thesis
      proof (cases r)
        case (Some e)
        with sa pa have "e = UnrecognizedFlagError n v sg"
          by (simp add: scan_args_def)
        moreover from pa Some
        have "ParseArgs_loop ext fv (init_scan h) args' = (s, Some e)"
          by (simp add: ParseArgs_def)
        then have "\<not> is_unrecognized e"
          by (rule ParseArgs_loop_not_unrecognized)
        ultimately show ?thesis
          by (simp add: is_unrecognized_def)
      next
        case None
        show ?thesis
        proof (cases "find (\<lambda>(n, v). n \<notin> undefok s) (unknown_flags s)")
          case no: None
          with sa pa None
          have "finish_call ext (objects s) fv (program_name # unparsed_args s)
              = (h', fv', Inl (UnrecognizedFlagError n v sg))"
            by (simp add: scan_args_def)
          from finish_call_not_unrecognized [OF this] show ?thesis
            by (simp add: is_unrecognized_def)
        next
          case (Some found)
          with sa pa None have "found = (n, v)" "h' = objects s" "fv' = fv"
            by (auto simp: scan_args_def split: prod.splits)
          moreover from pa have "objects s = replay ext (parse_calls s) h"
            by (rule ParseArgs_replay)
          moreover note ParseArgs_unknown [OF pa]
          ultimately show ?thesis
            using Cons \<open>ReadFlagsFromFiles depth ext h fv args False = Some expanded\<close> Inr pa None Some
            by auto
        qed
      qed
    qed
  qed
qed


lemmas scan_eval =
  scan_token_def positional_def parse_flag_def add_undefok_def record_unknown_def split_arg_def
  split1_def lstrip_dash_def startswith_def strip_def whitespace_def flag_Parse_def init_scan_def
  no_externals_def bool_store_def bool_registry_def init_FlagValues_def plain_flag_def

lemmas call_eval =
  call_def scan_args_def finish_call_def MarkAsParsed_def RegisteredFlags_def
  AssertAllValidators_def AssertValidators_def ReadFlagsFromFiles_def ParseArgs_def
  IsFlagFileDirective_def

text \<open>
  C4. A parse call that raises \<^verbatim>\<open>UnrecognizedFlagError\<close> has expanded the flag files and
  scanned all the arguments without error, and the error names the first of the unknown
  flags whose name is not in \<^verbatim>\<open>undefok\<close>; the unknown flags are tokens of the scanned
  arguments, in their order, each with the name split from it. The store it leaves
  is the store after every call of \<^verbatim>\<open>Parse\<close> that the scan made, none of them undone,
  and the registry is as it was (not marked parsed).
\<close>

theorem call_unrecognized_first:
  assumes "call depth ext h fv argv = Some (h', fv', Inl (UnrecognizedFlagError n v sg))"
  shows "\<exists>program_name args args' s.
      argv = program_name # args \<and>
      ReadFlagsFromFiles depth ext h fv args False = Some (Inr args') \<and>
      ParseArgs ext h fv args' = (s, None) \<and>
      find (\<lambda>(n, v). n \<notin> undefok s) (unknown_flags s) = Some (n, v) \<and>
      subseq (map snd (unknown_flags s)) args' \<and>
      list_all (\<lambda>(n, a). n = fst (split_arg a)) (unknown_flags s) \<and>
      h' = objects s \<and> h' = replay ext (parse_calls s) h \<and> fv' = fv"
  using assms by (rule call_raises_unrecognized)

text \<open>
  The scan parses \<^verbatim>\<open>--bool_flag\<close> although the unknown \<^verbatim>\<open>--a\<close> comes before it and the
  unknown \<^verbatim>\<open>--b\<close> after it; \<open>a\<close> is covered by \<^verbatim>\<open>undefok\<close>, the call raises for \<open>b\<close>, and
  the flag keeps the value \<^verbatim>\<open>True\<close>.
\<close>

theorem call_unrecognized_first_witness:
  "call (Suc 0) no_externals bool_store bool_registry
     [''prog'', ''--a'', ''--bool_flag'', ''--b'', ''--undefok=a'']
     = Some (bool_store(0 := (bool_store 0)\<lparr>flag_value := PyBool True, present := Suc 0,
                                              using_default_value := False\<rparr>),
             bool_registry, Inl (UnrecognizedFlagError ''b'' ''--b'' [])) \<and>
   (\<exists>s. ParseArgs no_externals bool_store bool_registry [''--a'', ''--bool_flag'', ''--b'', ''--undefok=a'']
          = (s, None) \<and>
        unknown_flags s = [(''a'', ''--a''), (''b'', ''--b'')] \<and>
        find (\<lambda>(n, v). n \<notin> undefok s) (unknown_flags s) = Some (''b'', ''--b'') \<and>
        parse_calls s = [(0, PyBool True)] \<and>
        replay no_externals (parse_calls s) bool_store
          = bool_store(0 := (bool_store 0)\<lparr>flag_value := PyBool True, present := Suc 0,
                                               using_default_value := False\<rparr>))"
proof -
  let ?h' = "bool_store(0 := (bool_store 0)\<lparr>flag_value := PyBool True, present := Suc 0,
                                              using_default_value := False\<rparr>)"
  have sg: "GetFlagSuggestions no_externals n ns = []" for n ns
    by (simp add: no_externals_def)
  have rd: "ReadFlagsFromFiles (Suc 0) no_externals bool_store bool_registry
      [''--a'', ''--bool_flag'', ''--b'', ''--undefok=a''] False
      = Some (Inr [''--a'', ''--bool_flag'', ''--b'', ''--undefok=a''])"
    by (simp add: ReadFlagsFromFiles_def IsFlagFileDirective_def startswith_def lstrip_dash_def
        bool_registry_def init_FlagValues_def)
  have pa: "ParseArgs no_externals bool_store bool_registry
      [''--a'', ''--bool_flag'', ''--b'', ''--undefok=a'']
      = (\<lparr>objects = ?h', parse_calls = [(0, PyBool True)],
          unknown_flags = [(''a'', ''--a''), (''b'', ''--b'')], unparsed_args = [],
          undefok = {''a'', ''noa''}\<rparr>, None)"
    by (simp add: ParseArgs_def scan_eval) (simp add: insert_commute)
  have c: "call (Suc 0) no_externals bool_store bool_registry
     [''prog'', ''--a'', ''--bool_flag'', ''--b'', ''--undefok=a'']
     = Some (?h', bool_registry, Inl (UnrecognizedFlagError ''b'' ''--b'' []))"
    by (simp add: call_def scan_args_def rd pa sg)
  from call_unrecognized_first [OF c] obtain program_name args args' s
    where *: "[''prog'', ''--a'', ''--bool_flag'', ''--b'', ''--undefok=a''] = program_name # args"
      "ReadFlagsFromFiles (Suc 0) no_externals bool_store bool_registry args False = Some (Inr args')"
      "ParseArgs no_externals bool_store bool_registry args' = (s, None)"
      "find (\<lambda>(n, v). n \<notin> undefok s) (unknown_flags s) = Some (''b'', ''--b'')"
      "?h' = replay no_externals (parse_calls s) bool_store"
    by blast
  from *(1,2) rd have "args' = [''--a'', ''--bool_flag'', ''--b'', ''--undefok=a'']"
    by simp
  with *(3) pa have "unknown_flags s = [(''a'', ''--a''), (''b'', ''--b'')]"
    "parse_calls s = [(0, PyBool True)]"
    by auto
  with * \<open>args' = [''--a'', ''--bool_flag'', ''--b'', ''--undefok=a'']\<close> c show ?thesis
    by auto
qed



lemma ParseArgs_loop_Continue:
  "scan_token ext fv t arg rest = Continue t' rest' \<Longrightarrow>
   ParseArgs_loop ext fv t (arg # rest) = ParseArgs_loop ext fv t' rest'"
  by simp

lemma ParseArgs_loop_Raise:
  "scan_token ext fv t arg rest = Raise t' e \<Longrightarrow>
   ParseArgs_loop ext fv t (arg # rest) = (t', Some e)"
  by simp






end
